theory Spec2Isabelle
  imports Main
begin

section \<open>Python dictionaries as insertion-ordered association lists\<close>

text \<open>
  The router keeps a dictionary of dictionaries and iterates over both levels, so the
  iteration order is observable (which route wins a tie, in which order advertisements
  leave). A dictionary is therefore an association list in insertion order: assigning
  to a key that is present replaces the value where it stands, assigning to a new key
  appends, \<open>pop\<close> removes, and a lookup of a missing key is \<open>None\<close> (the
  \<open>KeyError\<close> of the source, raised by the caller).
\<close>

type_synonym ('k, 'v) dict = "('k \<times> 'v) list"

definition dict_get :: "('k, 'v) dict \<Rightarrow> 'k \<Rightarrow> 'v option" where
  "dict_get d k = map_of d k"

definition dict_in :: "'k \<Rightarrow> ('k, 'v) dict \<Rightarrow> bool" where
  "dict_in k d = (dict_get d k \<noteq> None)"

fun dict_set :: "'k \<Rightarrow> 'v \<Rightarrow> ('k, 'v) dict \<Rightarrow> ('k, 'v) dict" where
  "dict_set k v [] = [(k, v)]"
| "dict_set k v ((k', v') # d) =
     (if k' = k then (k, v) # d else (k', v') # dict_set k v d)"

definition dict_pop :: "'k \<Rightarrow> ('k, 'v) dict \<Rightarrow> ('k, 'v) dict" where
  "dict_pop k d = filter (\<lambda>kv. fst kv \<noteq> k) d"

definition dict_keys :: "('k, 'v) dict \<Rightarrow> 'k list" where
  "dict_keys d = map fst d"

definition dict_values :: "('k, 'v) dict \<Rightarrow> 'v list" where
  "dict_values d = map snd d"

text \<open>Every Python dictionary has pairwise different keys.\<close>

definition dict_ok :: "('k, 'v) dict \<Rightarrow> bool" where
  "dict_ok d = distinct (dict_keys d)"

section \<open>Routes, packets and the router's state\<close>

text \<open>
  A route is the tuple \<open>(distance, port)\<close> of the source. Distances are Python
  numbers, modelled as unbounded integers; ports are the simulator's port numbers.
  Router identities are opaque, hence a type variable.
\<close>

type_synonym route = "int \<times> nat"
type_synonym 'r routes = "('r, route) dict"
type_synonym 'r table = "('r, 'r routes) dict"

text \<open>
  The three kinds of packet that \<open>handle_rx\<close> tells apart. Anything that is neither a
  \<open>DiscoveryPacket\<close> nor a \<open>RoutingUpdate\<close> is handled as data; of such a packet the
  router reads the destination only.
\<close>

datatype ('r, 'a) packet =
    DiscoveryPacket 'r int bool
  | RoutingUpdate 'r "('r, int) dict"
  | DataPacket 'r 'a

fun type_name :: "('r, 'a) packet \<Rightarrow> string" where
  "type_name (DiscoveryPacket _ _ _) = ''DiscoveryPacket''"
| "type_name (RoutingUpdate _ _) = ''RoutingUpdate''"
| "type_name (DataPacket _ _) = ''DataPacket''"

text \<open>
  Modelled from the spec: \<open>all_dests\<close> of the advertisement class \<open>RoutingUpdate\<close> of
  \<open>sim.basics\<close>, which the router imports and which is not among the sources. The spec
  describes an advertisement as an ordered set of (destination, distance) pairs;
  \<open>all_dests\<close> lists the destinations.
\<close>

definition all_dests :: "('r, int) dict \<Rightarrow> 'r list" where
  "all_dests ps = dict_keys ps"

text \<open>
  Modelled from the spec: \<open>get_distance\<close> of the same class, the distance advertised
  for a destination (a \<open>KeyError\<close>, here \<open>None\<close>, for a destination that is not
  advertised).
\<close>

definition get_distance :: "('r, int) dict \<Rightarrow> 'r \<Rightarrow> int option" where
  "get_distance ps dest = dict_get ps dest"

text \<open>
  Modelled from the spec: \<open>add_destination\<close> of the same class; the spec has the
  announcer start from the empty advertisement and append entries.
\<close>

definition add_destination :: "('r, int) dict \<Rightarrow> 'r \<Rightarrow> int \<Rightarrow> ('r, int) dict" where
  "add_destination ps dest distance = ps @ [(dest, distance)]"

text \<open>
  What the router hands to \<open>send\<close>: either an advertisement it has just built
  (\<open>RoutingUpdate()\<close> filled by \<open>add_destination\<close>), or the very packet it received.
\<close>

datatype ('r, 'a) outgoing =
    Advertisement "('r, int) dict"
  | Forwarded "('r, 'a) packet"

text \<open>The calls to \<open>logging\<close>, one constructor per call site with the formatted values.\<close>

datatype level = DEBUG | INFO | WARNING

datatype 'r message =
    MsgInit
  | MsgReceived nat string
  | MsgLinkUp 'r nat
  | MsgLinkDown 'r
  | MsgProcessUpdate 'r nat
  | MsgUnknownNeighbor 'r
  | MsgTableUpdated 'r
  | MsgProcessData 'r
  | MsgForward nat 'r
  | MsgNoRoute 'r
  | MsgAnnounce
  | MsgSendUpdate nat 'r

record ('r, 'a) router =
  routingTable :: "'r table"
  sent :: "(('r, 'a) outgoing \<times> nat) list"
  logged :: "(level \<times> 'r message) list"

datatype error = KeyError

text \<open>
  A handler either returns normally with the new state (\<open>Inr\<close>) or raises; the object
  keeps what was mutated before the exception, so the error carries the state too.
\<close>

type_synonym ('r, 'a) result = "(error \<times> ('r, 'a) router) + ('r, 'a) router"

definition logging :: "level \<Rightarrow> 'r message \<Rightarrow> ('r, 'a) router \<Rightarrow> ('r, 'a) router" where
  "logging l m s = s\<lparr>logged := logged s @ [(l, m)]\<rparr>"

text \<open>
  Modelled from the spec: \<open>send\<close> of the simulator's \<open>Entity\<close>, not among the sources,
  through which the engine enqueues an outgoing event on a port. The model records the
  packet and the port, in the order of the calls.
\<close>

definition send :: "('r, 'a) outgoing \<Rightarrow> nat \<Rightarrow> ('r, 'a) router \<Rightarrow> ('r, 'a) router" where
  "send p port s = s\<lparr>sent := sent s @ [(p, port)]\<rparr>"

definition init :: "('r, 'a) router" where
  "init = \<lparr>routingTable = [], sent = [], logged = [(INFO, MsgInit)]\<rparr>"

section \<open>The announcer\<close>

text \<open>
  The first loop of \<open>_announce\<close>: one step per entry of a neighbor's route set, keeping
  for every destination the first route seen with the least distance.
\<close>

fun shortest_step :: "'r routes \<Rightarrow> 'r \<times> route \<Rightarrow> 'r routes" where
  "shortest_step asp (dest, (distance, port)) =
     (case dict_get asp dest of
        None \<Rightarrow> dict_set dest (distance, port) asp
      | Some (d0, p0) \<Rightarrow>
          if d0 > distance then dict_set dest (distance, port) asp else asp)"

definition all_shortest_paths :: "'r table \<Rightarrow> 'r routes" where
  "all_shortest_paths t =
     foldl (\<lambda>asp routes. foldl shortest_step asp routes) [] (dict_values t)"

text \<open>The inner loop of the second part: split horizon on the neighbor's port.\<close>

fun update_step :: "nat \<Rightarrow> ('r, int) dict \<Rightarrow> 'r \<times> route \<Rightarrow> ('r, int) dict" where
  "update_step neighbor_port update_packet (dest, (distance, port)) =
     (if port = neighbor_port then update_packet
      else add_destination update_packet dest distance)"

definition build_update :: "'r routes \<Rightarrow> nat \<Rightarrow> ('r, int) dict" where
  "build_update asp neighbor_port = foldl (update_step neighbor_port) [] asp"

fun announce_loop :: "'r routes \<Rightarrow> 'r table \<Rightarrow> ('r, 'a) router \<Rightarrow> ('r, 'a) result" where
  "announce_loop asp [] s = Inr s"
| "announce_loop asp ((neighbor, neighbor_routes) # rest) s =
     (case dict_get neighbor_routes neighbor of
        None \<Rightarrow> Inl (KeyError, s)
      | Some (d, neighbor_port) \<Rightarrow>
          announce_loop asp rest
            (send (Advertisement (build_update asp neighbor_port)) neighbor_port
               (logging DEBUG (MsgSendUpdate neighbor_port neighbor) s)))"

definition announce :: "('r, 'a) router \<Rightarrow> ('r, 'a) result" where
  "announce s0 =
     (let s = logging INFO MsgAnnounce s0
      in announce_loop (all_shortest_paths (routingTable s)) (routingTable s) s)"

section \<open>The handlers\<close>

definition handleDiscoveryPacket ::
  "('r, 'a) router \<Rightarrow> 'r \<Rightarrow> int \<Rightarrow> bool \<Rightarrow> nat \<Rightarrow> ('r, 'a) result" where
  "handleDiscoveryPacket s0 src latency is_link_up port =
     (if is_link_up then
        (let s = logging INFO (MsgLinkUp src port) s0
         in announce (s\<lparr>routingTable :=
              dict_set src [(src, (latency, port))] (routingTable s)\<rparr>))
      else
        (let s = logging INFO (MsgLinkDown src) s0
         in if dict_in src (routingTable s)
            then announce (s\<lparr>routingTable := dict_pop src (routingTable s)\<rparr>)
            else Inr s))"

text \<open>
  The loop of \<open>_handleRoutingUpdate\<close> over \<open>packet.all_dests()\<close>. It works on a copy
  of the neighbor's route set and reads the link distance from the table, which it does
  not change; both lookups of the table can raise.
\<close>

fun merge_loop ::
  "'r table \<Rightarrow> 'r \<Rightarrow> ('r, int) dict \<Rightarrow> nat \<Rightarrow> 'r list \<Rightarrow> 'r routes \<times> bool
     \<Rightarrow> error + 'r routes \<times> bool" where
  "merge_loop t src ps port [] acc = Inr acc"
| "merge_loop t src ps port (dest # dests) (neighbor_info, updated) =
     (case get_distance ps dest of
        None \<Rightarrow> Inl KeyError
      | Some advertised \<Rightarrow>
         (case dict_get t src of
            None \<Rightarrow> Inl KeyError
          | Some own \<Rightarrow>
             (case dict_get own src of
                None \<Rightarrow> Inl KeyError
              | Some (link, lp) \<Rightarrow>
                 (let new_distance = advertised + link
                  in if (case dict_get neighbor_info dest of
                           None \<Rightarrow> True
                         | Some (d0, p0) \<Rightarrow> d0 > new_distance)
                     then merge_loop t src ps port dests
                            (dict_set dest (new_distance, port) neighbor_info, True)
                     else merge_loop t src ps port dests (neighbor_info, updated)))))"

definition handleRoutingUpdate ::
  "('r, 'a) router \<Rightarrow> 'r \<Rightarrow> ('r, int) dict \<Rightarrow> nat \<Rightarrow> ('r, 'a) result" where
  "handleRoutingUpdate s0 src ps port =
     (let s = logging DEBUG (MsgProcessUpdate src port) s0
      in case dict_get (routingTable s) src of
           None \<Rightarrow> Inr (logging WARNING (MsgUnknownNeighbor src) s)
         | Some own \<Rightarrow>
            (case merge_loop (routingTable s) src ps port (all_dests ps) (own, False) of
               Inl e \<Rightarrow> Inl (e, s)
             | Inr (neighbor_info, updated) \<Rightarrow>
                 if updated then
                   announce (logging INFO (MsgTableUpdated src)
                     (s\<lparr>routingTable := dict_set src neighbor_info (routingTable s)\<rparr>))
                 else Inr s))"

text \<open>
  The scan of \<open>_handleDataPacket\<close>. A route is a pair, hence never falsy, so
  \<open>not shortest_path\<close> holds exactly while \<open>shortest_path\<close> is \<open>None\<close>. The
  handler gets the data packet as its destination and its content, and hands the same
  packet to \<open>send\<close>.
\<close>

fun scan_step :: "'r \<Rightarrow> route option \<Rightarrow> 'r \<times> 'r routes \<Rightarrow> route option" where
  "scan_step dst shortest_path (neighbor, routes) =
     (case dict_get routes dst of
        None \<Rightarrow> shortest_path
      | Some r \<Rightarrow>
         (case shortest_path of
            None \<Rightarrow> Some r
          | Some sp \<Rightarrow> if fst r < fst sp then Some r else Some sp))"

definition scan :: "'r table \<Rightarrow> 'r \<Rightarrow> route option" where
  "scan t dst = foldl (scan_step dst) None t"

definition handleDataPacket ::
  "('r, 'a) router \<Rightarrow> 'r \<Rightarrow> 'a \<Rightarrow> nat \<Rightarrow> ('r, 'a) result" where
  "handleDataPacket s0 dst c port =
     (let s = logging DEBUG (MsgProcessData dst) s0
      in case scan (routingTable s) dst of
           Some shortest_path \<Rightarrow>
             Inr (send (Forwarded (DataPacket dst c)) (snd shortest_path)
                    (logging INFO (MsgForward (snd shortest_path) dst) s))
         | None \<Rightarrow> Inr (logging WARNING (MsgNoRoute dst) s))"

definition handle_rx :: "('r, 'a) router \<Rightarrow> ('r, 'a) packet \<Rightarrow> nat \<Rightarrow> ('r, 'a) result" where
  "handle_rx s0 packet port =
     (let s = logging DEBUG (MsgReceived port (type_name packet)) s0
      in case packet of
           DiscoveryPacket src latency is_link_up \<Rightarrow>
             handleDiscoveryPacket s src latency is_link_up port
         | RoutingUpdate src ps \<Rightarrow> handleRoutingUpdate s src ps port
         | DataPacket dst c \<Rightarrow> handleDataPacket s dst c port)"

text \<open>
  The engine is called once per received event; an exception ends the run with the
  state it left behind.
\<close>

text \<open>The state a call leaves behind, whether it returned or raised.\<close>

definition state_of :: "('r, 'a) result \<Rightarrow> ('r, 'a) router" where
  "state_of r = (case r of Inl (e, s) \<Rightarrow> s | Inr s \<Rightarrow> s)"

fun run ::
  "('r, 'a) router \<Rightarrow> (('r, 'a) packet \<times> nat) list \<Rightarrow> ('r, 'a) result" where
  "run s [] = Inr s"
| "run s ((packet, port) # evs) =
     (case handle_rx s packet port of
        Inl e \<Rightarrow> Inl e
      | Inr s' \<Rightarrow> run s' evs)"


section \<open>Observations used in the statements\<close>

text \<open>
  The announcer's first action is its log line, so a call has run the announcer exactly
  when that line is among the entries the call appended to the log.
\<close>

definition announcer_fired :: "('r, 'a) router \<Rightarrow> ('r, 'a) result \<Rightarrow> bool" where
  "announcer_fired s r =
     ((INFO, MsgAnnounce) \<in> set (drop (length (logged s)) (logged (state_of r))))"

text \<open>
  The distance and the port that a received event announces for a link to \<open>n\<close> coming
  up, and the most recent such pair in a sequence of events (oldest event first).
\<close>

fun link_up_of :: "'r \<Rightarrow> ('r, 'a) packet \<times> nat \<Rightarrow> route option" where
  "link_up_of n (DiscoveryPacket src latency is_link_up, port) =
     (if is_link_up \<and> src = n then Some (latency, port) else None)"
| "link_up_of n (RoutingUpdate src ps, port) = None"
| "link_up_of n (DataPacket dst c, port) = None"

fun last_link_up :: "'r \<Rightarrow> (('r, 'a) packet \<times> nat) list \<Rightarrow> route option" where
  "last_link_up n [] = None"
| "last_link_up n (ev # evs) =
     (case last_link_up n evs of
        Some r \<Rightarrow> Some r
      | None \<Rightarrow> link_up_of n ev)"

text \<open>
  An event whose distances are non-negative: the link distance of a link-up, every
  advertised distance of an advertisement. A link-down carries no distance that is read.
\<close>

fun non_negative :: "('r, 'a) packet \<times> nat \<Rightarrow> bool" where
  "non_negative (DiscoveryPacket src latency is_link_up, port) =
     (is_link_up \<longrightarrow> 0 \<le> latency)"
| "non_negative (RoutingUpdate src ps, port) = list_all (\<lambda>(dest, distance). 0 \<le> distance) ps"
| "non_negative (DataPacket dst c, port) = True"

text \<open>
  The invariant of the table after the events \<open>evs\<close>: it is a dictionary, and every
  neighbor's route set has the neighbor's own entry, as set by its most recent link-up.
\<close>

definition table_inv :: "(('r, 'a) packet \<times> nat) list \<Rightarrow> 'r table \<Rightarrow> bool" where
  "table_inv evs t =
     (dict_ok t \<and>
      (\<forall>(n, routes) \<in> set t.
         last_link_up n evs \<noteq> None \<and> dict_get routes n = last_link_up n evs))"

section \<open>Facts about dictionaries\<close>

lemma dict_get_set: "dict_get (dict_set k v d) k' = (if k' = k then Some v else dict_get d k')"
  by (induction d) (auto simp: dict_get_def)

lemma dict_get_pop: "dict_get (dict_pop k d) k' = (if k' = k then None else dict_get d k')"
  by (induction d) (auto simp: dict_get_def dict_pop_def)

lemma dict_keys_set:
  "dict_keys (dict_set k v d) = (if k \<in> set (dict_keys d) then dict_keys d else dict_keys d @ [k])"
proof (induction d)
  case Nil
  show ?case by (simp add: dict_keys_def)
next
  case (Cons a d)
  obtain k' v' where a: "a = (k', v')" by (cases a)
  show ?case using Cons unfolding a by (cases "k' = k") (simp_all add: dict_keys_def)
qed

lemma dict_ok_set: "dict_ok d \<Longrightarrow> dict_ok (dict_set k v d)"
  by (simp add: dict_ok_def dict_keys_set)

lemma set_dict_set: "dict_ok d \<Longrightarrow> set (dict_set k v d) = insert (k, v) {kv \<in> set d. fst kv \<noteq> k}"
  by (induction d) (force simp: dict_ok_def dict_keys_def)+

lemma dict_ok_pop: "dict_ok d \<Longrightarrow> dict_ok (dict_pop k d)"
  by (simp add: dict_ok_def dict_pop_def dict_keys_def distinct_map_filter)

lemma dict_get_in_set: "dict_ok d \<Longrightarrow> (dict_get d k = Some v) = ((k, v) \<in> set d)"
  by (simp add: dict_ok_def dict_keys_def dict_get_def)

lemma get_distance_dests:
  "dest \<in> set (all_dests ps) \<Longrightarrow> \<exists>adv. get_distance ps dest = Some adv"
  by (simp add: all_dests_def get_distance_def dict_keys_def dict_get_def weak_map_of_SomeI
        map_of_eq_None_iff flip: not_None_eq)

lemma get_distance_None:
  "(get_distance ps dest = None) = (dest \<notin> set (all_dests ps))"
  by (simp add: all_dests_def get_distance_def dict_keys_def dict_get_def map_of_eq_None_iff)

lemma merge_loop_result:
  assumes "dict_get t src = Some own" and "dict_get own src = Some (link, lp)"
    and "set dests \<subseteq> set (all_dests ps)"
  shows "\<exists>info u. merge_loop t src ps port dests (info0, u0) = Inr (info, u) \<and>
     (\<forall>dest. dict_get info dest =
        (if dest \<in> set dests then
           (case get_distance ps dest of
              None \<Rightarrow> dict_get info0 dest
            | Some adv \<Rightarrow>
               (case dict_get info0 dest of
                  None \<Rightarrow> Some (adv + link, port)
                | Some (d0, p0) \<Rightarrow>
                    if d0 > adv + link then Some (adv + link, port) else Some (d0, p0)))
         else dict_get info0 dest)) \<and>
     (u \<longleftrightarrow> u0 \<or> (\<exists>dest \<in> set dests. \<exists>adv. get_distance ps dest = Some adv \<and>
         (case dict_get info0 dest of None \<Rightarrow> True | Some (d0, p0) \<Rightarrow> d0 > adv + link)))"
  using assms(3)
proof (induction dests arbitrary: info0 u0)
  case Nil
  show ?case by simp
next
  case (Cons dest dests)
  from Cons.prems obtain adv where adv: "get_distance ps dest = Some adv"
    using get_distance_dests[of dest ps] by auto
  from Cons.prems have sub: "set dests \<subseteq> set (all_dests ps)" by simp
  show ?case
  proof (cases "case dict_get info0 dest of None \<Rightarrow> True | Some (d0, p0) \<Rightarrow> d0 > adv + link")
    case True
    from Cons.IH[OF sub, of "dict_set dest (adv + link, port) info0" True]
    obtain info u where
      r: "merge_loop t src ps port dests (dict_set dest (adv + link, port) info0, True) = Inr (info, u)"
      and g: "\<And>d. dict_get info d =
        (if d \<in> set dests then
           (case get_distance ps d of
              None \<Rightarrow> dict_get (dict_set dest (adv + link, port) info0) d
            | Some a \<Rightarrow>
               (case dict_get (dict_set dest (adv + link, port) info0) d of
                  None \<Rightarrow> Some (a + link, port)
                | Some (d0, p0) \<Rightarrow>
                    if d0 > a + link then Some (a + link, port) else Some (d0, p0)))
         else dict_get (dict_set dest (adv + link, port) info0) d)"
      and u: "u" by auto
    have "merge_loop t src ps port (dest # dests) (info0, u0) = Inr (info, u)"
      using True adv assms(1,2) r by (simp add: Let_def)
    moreover have "\<forall>d. dict_get info d =
        (if d \<in> set (dest # dests) then
           (case get_distance ps d of
              None \<Rightarrow> dict_get info0 d
            | Some a \<Rightarrow>
               (case dict_get info0 d of
                  None \<Rightarrow> Some (a + link, port)
                | Some (d0, p0) \<Rightarrow>
                    if d0 > a + link then Some (a + link, port) else Some (d0, p0)))
         else dict_get info0 d)"
      using True adv by (auto simp: g dict_get_set split: option.splits)
    ultimately show ?thesis using u True adv by auto
  next
    case False
    from Cons.IH[OF sub, of info0 u0]
    obtain info u where
      r: "merge_loop t src ps port dests (info0, u0) = Inr (info, u)"
      and g: "\<And>d. dict_get info d =
        (if d \<in> set dests then
           (case get_distance ps d of
              None \<Rightarrow> dict_get info0 d
            | Some a \<Rightarrow>
               (case dict_get info0 d of
                  None \<Rightarrow> Some (a + link, port)
                | Some (d0, p0) \<Rightarrow>
                    if d0 > a + link then Some (a + link, port) else Some (d0, p0)))
         else dict_get info0 d)"
      and u: "u \<longleftrightarrow> u0 \<or> (\<exists>d \<in> set dests. \<exists>a. get_distance ps d = Some a \<and>
         (case dict_get info0 d of None \<Rightarrow> True | Some (d0, p0) \<Rightarrow> d0 > a + link))"
      by auto
    have "merge_loop t src ps port (dest # dests) (info0, u0) = Inr (info, u)"
      using False adv assms(1,2) r by (simp add: Let_def)
    moreover have "\<forall>d. dict_get info d =
        (if d \<in> set (dest # dests) then
           (case get_distance ps d of
              None \<Rightarrow> dict_get info0 d
            | Some a \<Rightarrow>
               (case dict_get info0 d of
                  None \<Rightarrow> Some (a + link, port)
                | Some (d0, p0) \<Rightarrow>
                    if d0 > a + link then Some (a + link, port) else Some (d0, p0)))
         else dict_get info0 d)"
      using False adv by (auto simp: g split: option.splits)
    ultimately show ?thesis using u False adv by auto
  qed
qed


section \<open>Facts about the announcer and the forwarder's scan\<close>

lemma build_update_fold:
  "foldl (update_step np) acc asp =
     acc @ map (\<lambda>(dest, (distance, port)). (dest, distance))
            (filter (\<lambda>(dest, (distance, port)). port \<noteq> np) asp)"
  by (induction asp arbitrary: acc) (auto simp: add_destination_def)

lemma build_update_eq:
  "build_update asp np =
     map (\<lambda>(dest, (distance, port)). (dest, distance))
       (filter (\<lambda>(dest, (distance, port)). port \<noteq> np) asp)"
  by (simp add: build_update_def build_update_fold)

lemma announce_loop_table:
  "routingTable (state_of (announce_loop asp t s)) = routingTable s"
  by (induction t arbitrary: s)
     (auto simp: state_of_def send_def logging_def split: option.splits)

lemma announce_table: "routingTable (state_of (announce s)) = routingTable s"
  by (simp add: announce_def Let_def announce_loop_table logging_def)

lemma dict_get_shortest_step:
  "dict_get (shortest_step asp (k, (d, p))) dest =
     (if dest = k then
        (case dict_get asp k of
           None \<Rightarrow> Some (d, p)
         | Some sp \<Rightarrow> if d < fst sp then Some (d, p) else Some sp)
      else dict_get asp dest)"
  by (auto simp: dict_get_set split: option.splits)

lemma dict_ok_shortest_step: "dict_ok asp \<Longrightarrow> dict_ok (shortest_step asp e)"
  by (cases e) (auto simp: dict_ok_set split: option.splits)

lemma dict_ok_shortest_fold: "dict_ok asp \<Longrightarrow> dict_ok (foldl shortest_step asp routes)"
  by (induction routes arbitrary: asp) (simp_all add: dict_ok_shortest_step)

lemma shortest_inner:
  "dict_ok routes \<Longrightarrow>
   dict_get (foldl shortest_step asp routes) dest =
     (case dict_get routes dest of
        None \<Rightarrow> dict_get asp dest
      | Some r \<Rightarrow>
         (case dict_get asp dest of
            None \<Rightarrow> Some r
          | Some sp \<Rightarrow> if fst r < fst sp then Some r else Some sp))"
proof (induction routes arbitrary: asp)
  case Nil
  show ?case by (simp add: dict_get_def)
next
  case (Cons e routes)
  obtain k d p where e: "e = (k, (d, p))" by (cases e) auto
  from Cons.prems have ok: "dict_ok routes" and fresh: "dict_get routes k = None"
    by (auto simp: e dict_ok_def dict_keys_def dict_get_def map_of_eq_None_iff)
  have hd: "dict_get ((k, (d, p)) # routes) dest =
      (if dest = k then Some (d, p) else dict_get routes dest)"
    by (simp add: dict_get_def)
  have "dict_get (foldl shortest_step (shortest_step asp (k, (d, p))) routes) dest =
     (case dict_get ((k, (d, p)) # routes) dest of
        None \<Rightarrow> dict_get asp dest
      | Some r \<Rightarrow>
         (case dict_get asp dest of
            None \<Rightarrow> Some r
          | Some sp \<Rightarrow> if fst r < fst sp then Some r else Some sp))"
    unfolding Cons.IH[OF ok] hd dict_get_shortest_step
    using fresh by (auto split: option.splits)
  then show ?case by (simp add: e)
qed

lemma all_shortest_paths_snoc:
  "all_shortest_paths (t @ [(n, routes)]) = foldl shortest_step (all_shortest_paths t) routes"
  by (simp add: all_shortest_paths_def dict_values_def)

lemma scan_snoc: "scan (t @ [x]) dst = scan_step dst (scan t dst) x"
  by (simp add: scan_def)

lemma dict_ok_all_shortest_paths: "dict_ok (all_shortest_paths t)"
proof (induction t rule: rev_induct)
  case Nil
  show ?case by (simp add: all_shortest_paths_def dict_values_def dict_ok_def dict_keys_def)
next
  case (snoc x t)
  then show ?case by (cases x) (simp add: all_shortest_paths_snoc dict_ok_shortest_fold)
qed

lemma all_shortest_paths_scan:
  "\<forall>(n, routes) \<in> set t. dict_ok routes \<Longrightarrow>
   dict_get (all_shortest_paths t) dest = scan t dest"
proof (induction t rule: rev_induct)
  case Nil
  show ?case by (simp add: all_shortest_paths_def dict_values_def scan_def dict_get_def)
next
  case (snoc x t)
  obtain n routes where x: "x = (n, routes)" by (cases x)
  from snoc.prems have ok: "dict_ok routes" and rest: "\<forall>(n, routes) \<in> set t. dict_ok routes"
    by (auto simp: x)
  show ?case
    unfolding x all_shortest_paths_snoc scan_snoc shortest_inner[OF ok] snoc.IH[OF rest]
    by (simp split: option.splits)
qed

lemma scan_None:
  "(scan t dst = None) = (\<forall>(n, routes) \<in> set t. dict_get routes dst = None)"
proof (induction t rule: rev_induct)
  case Nil
  show ?case by (simp add: scan_def)
next
  case (snoc x t)
  then show ?case by (cases x) (auto simp: scan_snoc split: option.splits)
qed

lemma scan_Some:
  "scan t dst = Some sp \<Longrightarrow>
   \<exists>i < length t. dict_get (snd (t ! i)) dst = Some sp \<and>
     (\<forall>j < length t. \<forall>r. dict_get (snd (t ! j)) dst = Some r \<longrightarrow> fst sp \<le> fst r) \<and>
     (\<forall>j < i. \<forall>r. dict_get (snd (t ! j)) dst = Some r \<longrightarrow> fst sp < fst r)"
proof (induction t arbitrary: sp rule: rev_induct)
  case Nil
  then show ?case by (simp add: scan_def)
next
  case (snoc x t)
  obtain n routes where x: "x = (n, routes)" by (cases x)
  show ?case
  proof (cases "dict_get routes dst")
    case None
    with snoc.prems have "scan t dst = Some sp" by (simp add: scan_snoc x)
    from snoc.IH[OF this] obtain i where i: "i < length t"
      "dict_get (snd (t ! i)) dst = Some sp"
      "\<forall>j < length t. \<forall>r. dict_get (snd (t ! j)) dst = Some r \<longrightarrow> fst sp \<le> fst r"
      "\<forall>j < i. \<forall>r. dict_get (snd (t ! j)) dst = Some r \<longrightarrow> fst sp < fst r"
      by blast
    show ?thesis
      by (rule exI[of _ i]) (use i None in \<open>auto simp: nth_append x less_Suc_eq\<close>)
  next
    case (Some r)
    show ?thesis
    proof (cases "scan t dst")
      case None
      then have none: "\<forall>(n, routes) \<in> set t. dict_get routes dst = None"
        by (simp add: scan_None)
      have nth_none: "dict_get (snd (t ! j)) dst = None" if "j < length t" for j
        using none nth_mem[OF that] by (cases "t ! j") auto
      from None Some snoc.prems have sp: "sp = r" by (simp add: scan_snoc x)
      show ?thesis
        by (rule exI[of _ "length t"])
           (use Some sp nth_none in \<open>auto simp: nth_append x less_Suc_eq\<close>)
    next
      case (Some sp0)
      from snoc.IH[OF this] obtain i where i: "i < length t"
        "dict_get (snd (t ! i)) dst = Some sp0"
        "\<forall>j < length t. \<forall>r. dict_get (snd (t ! j)) dst = Some r \<longrightarrow> fst sp0 \<le> fst r"
        "\<forall>j < i. \<forall>r. dict_get (snd (t ! j)) dst = Some r \<longrightarrow> fst sp0 < fst r"
        by blast
      show ?thesis
      proof (cases "fst r < fst sp0")
        case True
        with Some \<open>dict_get routes dst = Some r\<close> snoc.prems have sp: "sp = r"
          by (simp add: scan_snoc x)
        show ?thesis
          by (rule exI[of _ "length t"])
             (use True sp i \<open>dict_get routes dst = Some r\<close> in
               \<open>force simp: nth_append x less_Suc_eq\<close>)
      next
        case False
        with Some \<open>dict_get routes dst = Some r\<close> snoc.prems have sp: "sp = sp0"
          by (simp add: scan_snoc x)
        show ?thesis
          by (rule exI[of _ i])
             (use False sp i \<open>dict_get routes dst = Some r\<close> in
               \<open>auto simp: nth_append x less_Suc_eq\<close>)
      qed
    qed
  qed
qed

lemma announce_loop_ok:
  assumes "\<forall>(n, routes) \<in> set t. dict_in n routes"
  shows "\<exists>s' ads. announce_loop asp t s = Inr s' \<and> routingTable s' = routingTable s \<and>
     sent s' = sent s @ ads \<and>
     list_all2 (\<lambda>(n, routes) (pkt, port).
        \<exists>d. dict_get routes n = Some (d, port) \<and> pkt = Advertisement (build_update asp port))
       t ads"
  using assms
proof (induction t arbitrary: s)
  case Nil
  show ?case by simp
next
  case (Cons x t)
  obtain n routes where x: "x = (n, routes)" by (cases x)
  from Cons.prems obtain d port where self: "dict_get routes n = Some (d, port)"
    by (auto simp: x dict_in_def)
  from Cons.prems have rest: "\<forall>(n, routes) \<in> set t. dict_in n routes" by simp
  let ?s1 = "send (Advertisement (build_update asp port)) port
               (logging DEBUG (MsgSendUpdate port n) s)"
  from Cons.IH[OF rest, of ?s1] obtain s' ads where
    r: "announce_loop asp t ?s1 = Inr s'" "routingTable s' = routingTable ?s1"
       "sent s' = sent ?s1 @ ads"
       "list_all2 (\<lambda>(n, routes) (pkt, port).
          \<exists>d. dict_get routes n = Some (d, port) \<and> pkt = Advertisement (build_update asp port))
         t ads"
    by blast
  show ?case
    apply (rule exI[of _ s'])
    apply (rule exI[of _ "(Advertisement (build_update asp port), port) # ads"])
    using r self by (simp add: x send_def logging_def)
qed


lemma announce_ok:
  assumes "\<forall>(n, routes) \<in> set (routingTable s). dict_in n routes"
  shows "\<exists>s'. announce s = Inr s' \<and> routingTable s' = routingTable s"
proof -
  let ?s1 = "logging INFO MsgAnnounce s"
  have "\<forall>(n, routes) \<in> set (routingTable ?s1). dict_in n routes"
    using assms by (simp add: logging_def)
  from announce_loop_ok[OF this, of "all_shortest_paths (routingTable ?s1)" ?s1]
  show ?thesis by (auto simp: announce_def Let_def logging_def)
qed

section \<open>Facts about the merge handler\<close>

lemma merge_loop_stays_updated:
  "merge_loop t src ps port dests (info0, True) = Inr (info, u) \<Longrightarrow> u"
  by (induction dests arbitrary: info0)
     (auto simp: Let_def split: option.splits if_splits)

lemma merge_loop_unchanged:
  "merge_loop t src ps port dests (info0, u0) = Inr (info, u) \<Longrightarrow> \<not> u \<Longrightarrow> info = info0"
proof (induction dests arbitrary: info0 u0)
  case Nil
  then show ?case by simp
next
  case (Cons dest dests)
  from Cons.prems(1) obtain adv own link lp where
    f: "get_distance ps dest = Some adv" "dict_get t src = Some own"
       "dict_get own src = Some (link, lp)"
    by (auto split: option.splits)
  show ?case
  proof (cases "case dict_get info0 dest of None \<Rightarrow> True | Some (d0, p0) \<Rightarrow> d0 > adv + link")
    case True
    with Cons.prems(1) f
    have "merge_loop t src ps port dests (dict_set dest (adv + link, port) info0, True)
      = Inr (info, u)"
      by (simp add: Let_def)
    from merge_loop_stays_updated[OF this] Cons.prems(2) show ?thesis by simp
  next
    case False
    with Cons.prems(1) f
    have "merge_loop t src ps port dests (info0, u0) = Inr (info, u)"
      by (simp add: Let_def)
    from Cons.IH[OF this Cons.prems(2)] show ?thesis .
  qed
qed

lemma announce_loop_logged:
  "\<exists>rest. logged (state_of (announce_loop asp t s)) = logged s @ rest"
proof (induction t arbitrary: s)
  case Nil
  show ?case by (simp add: state_of_def)
next
  case (Cons x t)
  obtain n routes where x: "x = (n, routes)" by (cases x)
  show ?case
  proof (cases "dict_get routes n")
    case None
    then show ?thesis by (simp add: x state_of_def)
  next
    case (Some r)
    obtain d p where r: "r = (d, p)" by (cases r)
    from Cons.IH[of "send (Advertisement (build_update asp p)) p
               (logging DEBUG (MsgSendUpdate p n) s)"]
    show ?thesis by (auto simp: x Some r send_def logging_def)
  qed
qed

lemma announce_logged:
  "\<exists>rest. logged (state_of (announce s)) = logged s @ (INFO, MsgAnnounce) # rest"
  using announce_loop_logged[of "all_shortest_paths (routingTable s)" "routingTable s"
      "logging INFO MsgAnnounce s"]
  by (auto simp: announce_def Let_def logging_def)

lemma handleRoutingUpdate_known:
  assumes "dict_get (routingTable s) src = Some own" and "dict_get own src = Some (link, lp)"
  shows "\<exists>info u.
     merge_loop (routingTable s) src ps port (all_dests ps) (own, False) = Inr (info, u) \<and>
     (\<forall>dest. dict_get info dest =
        (case get_distance ps dest of
           None \<Rightarrow> dict_get own dest
         | Some adv \<Rightarrow>
            (case dict_get own dest of
               None \<Rightarrow> Some (adv + link, port)
             | Some (d0, p0) \<Rightarrow>
                 if d0 > adv + link then Some (adv + link, port) else Some (d0, p0)))) \<and>
     (u \<longleftrightarrow> (\<exists>dest adv. get_distance ps dest = Some adv \<and>
         (case dict_get own dest of None \<Rightarrow> True | Some (d0, p0) \<Rightarrow> d0 > adv + link))) \<and>
     (\<not> u \<longrightarrow> info = own) \<and>
     handleRoutingUpdate s src ps port =
       (if u then
          announce (logging INFO (MsgTableUpdated src)
            ((logging DEBUG (MsgProcessUpdate src port) s)
               \<lparr>routingTable := dict_set src info (routingTable s)\<rparr>))
        else Inr (logging DEBUG (MsgProcessUpdate src port) s))"
proof -
  from merge_loop_result[OF assms subset_refl, where port = port and ?info0.0 = own and ?u0.0 = False]
  obtain info u where
    r: "merge_loop (routingTable s) src ps port (all_dests ps) (own, False) = Inr (info, u)"
    and g: "\<And>dest. dict_get info dest =
        (if dest \<in> set (all_dests ps) then
           (case get_distance ps dest of
              None \<Rightarrow> dict_get own dest
            | Some adv \<Rightarrow>
               (case dict_get own dest of
                  None \<Rightarrow> Some (adv + link, port)
                | Some (d0, p0) \<Rightarrow>
                    if d0 > adv + link then Some (adv + link, port) else Some (d0, p0)))
         else dict_get own dest)"
    and u: "u \<longleftrightarrow> False \<or> (\<exists>dest \<in> set (all_dests ps). \<exists>adv. get_distance ps dest = Some adv \<and>
         (case dict_get own dest of None \<Rightarrow> True | Some (d0, p0) \<Rightarrow> d0 > adv + link))"
    by blast
  have g': "\<forall>dest. dict_get info dest =
        (case get_distance ps dest of
           None \<Rightarrow> dict_get own dest
         | Some adv \<Rightarrow>
            (case dict_get own dest of
               None \<Rightarrow> Some (adv + link, port)
             | Some (d0, p0) \<Rightarrow>
                 if d0 > adv + link then Some (adv + link, port) else Some (d0, p0)))"
  proof
    fix dest
    show "dict_get info dest =
        (case get_distance ps dest of
           None \<Rightarrow> dict_get own dest
         | Some adv \<Rightarrow>
            (case dict_get own dest of
               None \<Rightarrow> Some (adv + link, port)
             | Some (d0, p0) \<Rightarrow>
                 if d0 > adv + link then Some (adv + link, port) else Some (d0, p0)))"
      using get_distance_None[of ps dest] by (cases "get_distance ps dest") (simp_all add: g)
  qed
  have u': "u \<longleftrightarrow> (\<exists>dest adv. get_distance ps dest = Some adv \<and>
         (case dict_get own dest of None \<Rightarrow> True | Some (d0, p0) \<Rightarrow> d0 > adv + link))"
  proof -
    have "dest \<in> set (all_dests ps)" if "get_distance ps dest = Some adv" for dest adv
      using that get_distance_None[of ps dest] by auto
    then show ?thesis unfolding u by blast
  qed
  have same: "\<not> u \<longrightarrow> info = own"
    using merge_loop_unchanged[OF r] by blast
  have h: "handleRoutingUpdate s src ps port =
       (if u then
          announce (logging INFO (MsgTableUpdated src)
            ((logging DEBUG (MsgProcessUpdate src port) s)
               \<lparr>routingTable := dict_set src info (routingTable s)\<rparr>))
        else Inr (logging DEBUG (MsgProcessUpdate src port) s))"
    using assms(1) r by (simp add: handleRoutingUpdate_def Let_def logging_def)
  from r g' u' same h show ?thesis by blast
qed

section \<open>Facts about the states the engine reaches\<close>

lemma last_link_up_snoc:
  "last_link_up n (evs @ [ev]) =
     (case link_up_of n ev of Some r \<Rightarrow> Some r | None \<Rightarrow> last_link_up n evs)"
  by (induction evs) (auto split: option.splits)

lemma run_snoc:
  "run s (evs @ [(packet, port)]) =
     (case run s evs of Inl e \<Rightarrow> Inl e | Inr s' \<Rightarrow> handle_rx s' packet port)"
  by (induction evs arbitrary: s) (auto split: sum.splits)

lemma table_inv_self:
  "table_inv evs t \<Longrightarrow> \<forall>(n, routes) \<in> set t. dict_in n routes"
  by (auto simp: table_inv_def dict_in_def)

lemma table_inv_link_up:
  assumes "table_inv evs t"
  shows "table_inv (evs @ [(DiscoveryPacket src latency True, port)])
           (dict_set src [(src, (latency, port))] t)"
proof -
  from assms have ok: "dict_ok t" by (simp add: table_inv_def)
  show ?thesis
    unfolding table_inv_def
  proof (intro conjI ballI)
    show "dict_ok (dict_set src [(src, (latency, port))] t)" using ok by (rule dict_ok_set)
  next
    fix x
    assume x: "x \<in> set (dict_set src [(src, (latency, port))] t)"
    obtain n routes where nr: "x = (n, routes)" by (cases x)
    from x have "x = (src, [(src, (latency, port))]) \<or> (x \<in> set t \<and> fst x \<noteq> src)"
      unfolding set_dict_set[OF ok] by auto
    then show "case x of (n, routes) \<Rightarrow>
        last_link_up n (evs @ [(DiscoveryPacket src latency True, port)]) \<noteq> None \<and>
        dict_get routes n = last_link_up n (evs @ [(DiscoveryPacket src latency True, port)])"
    proof
      assume "x = (src, [(src, (latency, port))])"
      then show ?thesis by (simp add: last_link_up_snoc dict_get_def)
    next
      assume "x \<in> set t \<and> fst x \<noteq> src"
      with assms show ?thesis
        by (auto simp: nr table_inv_def last_link_up_snoc)
    qed
  qed
qed

lemma table_inv_subset:
  assumes "table_inv evs t" and "\<And>n. link_up_of n ev = None"
    and "set t' \<subseteq> set t" and "dict_ok t'"
  shows "table_inv (evs @ [ev]) t'"
  using assms by (auto simp: table_inv_def last_link_up_snoc)

lemma table_inv_merge:
  assumes "table_inv evs t" and "dict_get t src = Some own"
    and "dict_get info src = dict_get own src"
  shows "table_inv (evs @ [(RoutingUpdate src ps, port)]) (dict_set src info t)"
proof -
  from assms(1) have ok: "dict_ok t" by (simp add: table_inv_def)
  from assms(2) ok have mem: "(src, own) \<in> set t" by (simp add: dict_get_in_set)
  show ?thesis
    unfolding table_inv_def
  proof (intro conjI ballI)
    show "dict_ok (dict_set src info t)" using ok by (rule dict_ok_set)
  next
    fix x
    assume x: "x \<in> set (dict_set src info t)"
    obtain n routes where nr: "x = (n, routes)" by (cases x)
    from x have "x = (src, info) \<or> x \<in> set t"
      unfolding set_dict_set[OF ok] by auto
    then show "case x of (n, routes) \<Rightarrow>
        last_link_up n (evs @ [(RoutingUpdate src ps, port)]) \<noteq> None \<and>
        dict_get routes n = last_link_up n (evs @ [(RoutingUpdate src ps, port)])"
    proof
      assume "x = (src, info)"
      with assms(1,3) mem show ?thesis
        by (auto simp: table_inv_def last_link_up_snoc)
    next
      assume "x \<in> set t"
      with assms(1) show ?thesis
        by (auto simp: nr table_inv_def last_link_up_snoc)
    qed
  qed
qed

lemma announce_inv:
  assumes "table_inv evs (routingTable s)"
  shows "\<exists>s'. announce s = Inr s' \<and> table_inv evs (routingTable s')"
  using announce_ok[OF table_inv_self[OF assms]] assms by auto

lemma handleDiscoveryPacket_inv:
  assumes "table_inv evs (routingTable s)"
  shows "\<exists>s'. handleDiscoveryPacket s src latency is_link_up port = Inr s' \<and>
     table_inv (evs @ [(DiscoveryPacket src latency is_link_up, port)]) (routingTable s')"
proof (cases is_link_up)
  case True
  let ?s2 = "(logging INFO (MsgLinkUp src port) s)
       \<lparr>routingTable := dict_set src [(src, (latency, port))] (routingTable s)\<rparr>"
  have h: "handleDiscoveryPacket s src latency is_link_up port = announce ?s2"
    using True by (simp add: handleDiscoveryPacket_def Let_def logging_def)
  have "table_inv (evs @ [(DiscoveryPacket src latency True, port)]) (routingTable ?s2)"
    using table_inv_link_up[OF assms] by simp
  from announce_inv[OF this] show ?thesis unfolding h using True by simp
next
  case False
  let ?ev = "(DiscoveryPacket src latency is_link_up, port)"
  have none: "\<And>n. link_up_of n ?ev = None" using False by simp
  show ?thesis
  proof (cases "dict_in src (routingTable s)")
    case True
    let ?s2 = "(logging INFO (MsgLinkDown src) s)
          \<lparr>routingTable := dict_pop src (routingTable s)\<rparr>"
    have h: "handleDiscoveryPacket s src latency is_link_up port = announce ?s2"
      using True False by (simp add: handleDiscoveryPacket_def Let_def logging_def)
    have "table_inv (evs @ [?ev]) (dict_pop src (routingTable s))"
    proof (rule table_inv_subset[OF assms none])
      show "set (dict_pop src (routingTable s)) \<subseteq> set (routingTable s)"
        by (auto simp: dict_pop_def)
      show "dict_ok (dict_pop src (routingTable s))"
        using assms by (simp add: table_inv_def dict_ok_pop)
    qed
    then have "table_inv (evs @ [?ev]) (routingTable ?s2)" by simp
    from announce_inv[OF this] show ?thesis unfolding h by simp
  next
    case notin: False
    have h: "handleDiscoveryPacket s src latency is_link_up port
        = Inr (logging INFO (MsgLinkDown src) s)"
      using notin False by (simp add: handleDiscoveryPacket_def Let_def logging_def)
    have "table_inv (evs @ [?ev]) (routingTable s)"
      by (rule table_inv_subset[OF assms none]) (use assms in \<open>simp_all add: table_inv_def\<close>)
    then show ?thesis unfolding h by (simp add: logging_def)
  qed
qed

lemma handleRoutingUpdate_inv:
  assumes "table_inv evs (routingTable s)"
    and "list_all (\<lambda>(dest, distance). 0 \<le> distance) ps"
  shows "\<exists>s'. handleRoutingUpdate s src ps port = Inr s' \<and>
     table_inv (evs @ [(RoutingUpdate src ps, port)]) (routingTable s')"
proof -
  let ?ev = "(RoutingUpdate src ps, port)"
  have none: "\<And>n. link_up_of n ?ev = None" by simp
  have keep: "table_inv (evs @ [?ev]) (routingTable s)"
    by (rule table_inv_subset[OF assms(1) none]) (use assms in \<open>simp_all add: table_inv_def\<close>)
  show ?thesis
  proof (cases "dict_get (routingTable s) src")
    case None
    then have "handleRoutingUpdate s src ps port =
        Inr (logging WARNING (MsgUnknownNeighbor src) (logging DEBUG (MsgProcessUpdate src port) s))"
      by (simp add: handleRoutingUpdate_def Let_def logging_def)
    with keep show ?thesis by (simp add: logging_def)
  next
    case (Some own)
    from assms(1) have ok: "dict_ok (routingTable s)" by (simp add: table_inv_def)
    from Some ok have mem: "(src, own) \<in> set (routingTable s)" by (simp add: dict_get_in_set)
    with assms(1) obtain link lp where self: "dict_get own src = Some (link, lp)"
      by (fastforce simp: table_inv_def)
    from handleRoutingUpdate_known[OF Some self, of ps port]
    obtain info u where
      r: "merge_loop (routingTable s) src ps port (all_dests ps) (own, False) = Inr (info, u)"
      and g: "\<forall>dest. dict_get info dest =
        (case get_distance ps dest of
           None \<Rightarrow> dict_get own dest
         | Some adv \<Rightarrow>
            (case dict_get own dest of
               None \<Rightarrow> Some (adv + link, port)
             | Some (d0, p0) \<Rightarrow>
                 if d0 > adv + link then Some (adv + link, port) else Some (d0, p0)))"
      and u: "u \<longleftrightarrow> (\<exists>dest adv. get_distance ps dest = Some adv \<and>
         (case dict_get own dest of None \<Rightarrow> True | Some (d0, p0) \<Rightarrow> d0 > adv + link))"
      and same: "\<not> u \<longrightarrow> info = own"
      and h: "handleRoutingUpdate s src ps port =
       (if u then
          announce (logging INFO (MsgTableUpdated src)
            ((logging DEBUG (MsgProcessUpdate src port) s)
               \<lparr>routingTable := dict_set src info (routingTable s)\<rparr>))
        else Inr (logging DEBUG (MsgProcessUpdate src port) s))"
      by blast
    show ?thesis
    proof (cases u)
      case False
      with keep show ?thesis unfolding h by (simp add: logging_def)
    next
      case True
      have selfkept: "dict_get info src = dict_get own src"
      proof (cases "get_distance ps src")
        case None
        with g[rule_format, of src] show ?thesis by simp
      next
        case (Some adv)
        then have "(src, adv) \<in> set ps"
          by (simp add: get_distance_def dict_get_def map_of_SomeD)
        with assms(2) have "0 \<le> adv" by (auto simp: list_all_iff)
        with g[rule_format, of src] Some self show ?thesis by simp
      qed
      let ?s2 = "logging INFO (MsgTableUpdated src)
            ((logging DEBUG (MsgProcessUpdate src port) s)
               \<lparr>routingTable := dict_set src info (routingTable s)\<rparr>)"
      have "table_inv (evs @ [?ev]) (routingTable ?s2)"
        using table_inv_merge[OF assms(1) Some selfkept, of ps port] by (simp add: logging_def)
      from announce_inv[OF this] show ?thesis unfolding h using True by simp
    qed
  qed
qed

lemma handleDataPacket_inv:
  assumes "table_inv evs (routingTable s)"
  shows "\<exists>s'. handleDataPacket s dst c port = Inr s' \<and>
     table_inv (evs @ [(DataPacket dst c, port)]) (routingTable s')"
proof -
  have none: "\<And>n. link_up_of n (DataPacket dst c, port) = None" by simp
  have keep: "table_inv (evs @ [(DataPacket dst c, port)]) (routingTable s)"
    by (rule table_inv_subset[OF assms none]) (use assms in \<open>simp_all add: table_inv_def\<close>)
  then show ?thesis
    by (simp add: handleDataPacket_def Let_def logging_def send_def split: option.splits)
qed

lemma handle_rx_inv:
  assumes "table_inv evs (routingTable s)" and "non_negative (packet, port)"
  shows "\<exists>s'. handle_rx s packet port = Inr s' \<and>
     table_inv (evs @ [(packet, port)]) (routingTable s')"
proof -
  let ?s1 = "logging DEBUG (MsgReceived port (type_name packet)) s"
  have inv1: "table_inv evs (routingTable ?s1)" using assms(1) by (simp add: logging_def)
  show ?thesis
  proof (cases packet)
    case (DiscoveryPacket src latency up)
    with handleDiscoveryPacket_inv[OF inv1, of src latency up port] show ?thesis
      by (simp add: handle_rx_def Let_def)
  next
    case (RoutingUpdate src ps)
    with assms(2) have "list_all (\<lambda>(dest, distance). 0 \<le> distance) ps" by simp
    from handleRoutingUpdate_inv[OF inv1 this, of src port] RoutingUpdate show ?thesis
      by (simp add: handle_rx_def Let_def)
  next
    case (DataPacket dst c)
    with handleDataPacket_inv[OF inv1, of dst c port] show ?thesis
      by (simp add: handle_rx_def Let_def)
  qed
qed

lemma run_inv:
  assumes "list_all non_negative evs"
  shows "\<exists>s. run init evs = Inr s \<and> table_inv evs (routingTable s)"
  using assms
proof (induction evs rule: rev_induct)
  case Nil
  show ?case by (simp add: init_def table_inv_def dict_ok_def dict_keys_def)
next
  case (snoc ev evs)
  obtain packet port where ev: "ev = (packet, port)" by (cases ev)
  from snoc.prems have nn: "non_negative (packet, port)" and rest: "list_all non_negative evs"
    by (simp_all add: ev)
  from snoc.IH[OF rest] obtain s where s: "run init evs = Inr s" "table_inv evs (routingTable s)"
    by blast
  from handle_rx_inv[OF s(2) nn] s(1) show ?case
    by (simp add: ev run_snoc)
qed

section \<open>The claims\<close>

text \<open>
  C1. Let the advertisement come from a neighbor \<open>src\<close> that is a key of the table,
  with route set \<open>own\<close>, whose self-entry holds the link distance \<open>link\<close>. After the
  handler (whether the announcer it may call returns or raises) the table still has a
  route set for \<open>src\<close>, and for every destination: if the advertisement has no
  distance for it, its entry is what it was; if the advertisement gives \<open>adv\<close>, the
  entry is \<open>(adv + link, port)\<close> exactly when the destination was absent or its stored
  distance was strictly greater than \<open>adv + link\<close>, and is the old distance and port
  otherwise (so also on a tie). Every destination of the old route set is still there.
\<close>

theorem merge_overwrites_iff_shorter:
  assumes "dict_get (routingTable s) src = Some own" and "dict_get own src = Some (link, lp)"
  shows "\<exists>info.
     dict_get (routingTable (state_of (handleRoutingUpdate s src ps port))) src = Some info \<and>
     (\<forall>dest. dict_get info dest =
        (case get_distance ps dest of
           None \<Rightarrow> dict_get own dest
         | Some adv \<Rightarrow>
            (case dict_get own dest of
               None \<Rightarrow> Some (adv + link, port)
             | Some (d0, p0) \<Rightarrow>
                 if d0 > adv + link then Some (adv + link, port) else Some (d0, p0)))) \<and>
     (\<forall>dest. dict_in dest own \<longrightarrow> dict_in dest info)"
proof -
  from handleRoutingUpdate_known[OF assms, of ps port]
  obtain info u where
    r: "merge_loop (routingTable s) src ps port (all_dests ps) (own, False) = Inr (info, u)"
    and g: "\<forall>dest. dict_get info dest =
        (case get_distance ps dest of
           None \<Rightarrow> dict_get own dest
         | Some adv \<Rightarrow>
            (case dict_get own dest of
               None \<Rightarrow> Some (adv + link, port)
             | Some (d0, p0) \<Rightarrow>
                 if d0 > adv + link then Some (adv + link, port) else Some (d0, p0)))"
    and u: "u \<longleftrightarrow> (\<exists>dest adv. get_distance ps dest = Some adv \<and>
         (case dict_get own dest of None \<Rightarrow> True | Some (d0, p0) \<Rightarrow> d0 > adv + link))"
    and same: "\<not> u \<longrightarrow> info = own"
    and h: "handleRoutingUpdate s src ps port =
       (if u then
          announce (logging INFO (MsgTableUpdated src)
            ((logging DEBUG (MsgProcessUpdate src port) s)
               \<lparr>routingTable := dict_set src info (routingTable s)\<rparr>))
        else Inr (logging DEBUG (MsgProcessUpdate src port) s))"
    by blast
  have 1: "dict_get (routingTable (state_of (handleRoutingUpdate s src ps port))) src = Some info"
  proof (cases u)
    case True
    then show ?thesis unfolding h by (simp add: announce_table logging_def dict_get_set)
  next
    case False
    with same have "info = own" by simp
    with False assms(1) show ?thesis unfolding h by (simp add: state_of_def logging_def)
  qed
  have 2: "\<forall>dest. dict_in dest own \<longrightarrow> dict_in dest info"
  proof (intro allI impI)
    fix dest
    assume "dict_in dest own"
    then obtain d0 p0 where "dict_get own dest = Some (d0, p0)"
      by (auto simp: dict_in_def)
    with g[rule_format, of dest] show "dict_in dest info"
      by (cases "get_distance ps dest") (simp_all add: dict_in_def)
  qed
  show ?thesis
    apply (rule exI[of _ info])
    apply (intro conjI)
      apply (rule 1)
     apply (rule g)
    apply (rule 2)
    done
qed

theorem merge_overwrites_iff_shorter_witness:
  "dict_get (routingTable
      (\<lparr>routingTable = [(''A'', [(''A'', (1, 1)), (''B'', (3, 1)), (''C'', (9, 1)), (''E'', (2, 1))])],
        sent = [], logged = []\<rparr> :: (string, nat) router)) ''A''
     = Some [(''A'', (1, 1)), (''B'', (3, 1)), (''C'', (9, 1)), (''E'', (2, 1))] \<and>
   dict_get [(''A'', (1, 1)), (''B'', (3, 1)), (''C'', (9, 1)), (''E'', (2, 1))] ''A''
     = Some (1 :: int, 1 :: nat) \<and>
   (\<exists>info.
     dict_get (routingTable (state_of (handleRoutingUpdate
        (\<lparr>routingTable = [(''A'', [(''A'', (1, 1)), (''B'', (3, 1)), (''C'', (9, 1)), (''E'', (2, 1))])],
          sent = [], logged = []\<rparr> :: (string, nat) router)
        ''A'' [(''B'', 2), (''C'', 5), (''D'', 4)] 7))) ''A'' = Some info \<and>
     dict_get info ''A'' = Some (1, 1) \<and>
     dict_get info ''B'' = Some (3, 1) \<and>
     dict_get info ''C'' = Some (6, 7) \<and>
     dict_get info ''D'' = Some (5, 7) \<and>
     dict_get info ''E'' = Some (2, 1))"
proof -
  let ?own = "[(''A'', (1, 1)), (''B'', (3, 1)), (''C'', (9, 1)), (''E'', (2, 1))] :: string routes"
  let ?s = "\<lparr>routingTable = [(''A'', ?own)], sent = [], logged = []\<rparr> :: (string, nat) router"
  have a: "dict_get (routingTable ?s) ''A'' = Some ?own" by (simp add: dict_get_def)
  have b: "dict_get ?own ''A'' = Some (1, 1)" by (simp add: dict_get_def)
  from merge_overwrites_iff_shorter[OF a b, of "[(''B'', 2), (''C'', 5), (''D'', 4)]" 7]
  obtain info where
    i: "dict_get (routingTable (state_of (handleRoutingUpdate ?s ''A''
          [(''B'', 2), (''C'', 5), (''D'', 4)] 7))) ''A'' = Some info"
    and g: "\<And>dest. dict_get info dest =
        (case get_distance [(''B'', 2), (''C'', 5), (''D'', 4)] dest of
           None \<Rightarrow> dict_get ?own dest
         | Some adv \<Rightarrow>
            (case dict_get ?own dest of
               None \<Rightarrow> Some (adv + 1, 7)
             | Some (d0, p0) \<Rightarrow>
                 if d0 > adv + 1 then Some (adv + 1, 7) else Some (d0, p0)))"
    by blast
  have "dict_get info ''A'' = Some (1, 1)" "dict_get info ''B'' = Some (3, 1)"
    "dict_get info ''C'' = Some (6, 7)" "dict_get info ''D'' = Some (5, 7)"
    "dict_get info ''E'' = Some (2, 1)"
    unfolding g by (simp_all add: get_distance_def dict_get_def)
  with i a b show ?thesis by blast
qed

text \<open>
  C2. Let every neighbor of the table have its self-entry, and let the route sets be
  dictionaries (pairwise different keys). Then the announcer returns normally and sends
  exactly one advertisement per neighbor, in the table's order, out of the port of that
  neighbor's self-entry; the advertisement holds, in the order of the map of best
  routes, the pairs (destination, distance) of that map whose port is not the
  neighbor's port, and is sent even when no pair is left. The map of best routes has
  every destination at most once and gives for each destination exactly what the
  forwarder's scan selects for it: nothing when no route set has the destination, and
  otherwise the first route of least distance.
\<close>

theorem announcer_split_horizon:
  assumes "\<forall>(n, routes) \<in> set (routingTable s). dict_ok routes \<and> dict_in n routes"
  shows "\<exists>s' ads. announce s = Inr s' \<and> routingTable s' = routingTable s \<and>
     sent s' = sent s @ ads \<and>
     list_all2 (\<lambda>(n, routes) (pkt, port).
        \<exists>d. dict_get routes n = Some (d, port) \<and>
          pkt = Advertisement
            (map (\<lambda>(dest, (distance, p)). (dest, distance))
               (filter (\<lambda>(dest, (distance, p)). p \<noteq> port)
                  (all_shortest_paths (routingTable s)))))
       (routingTable s) ads \<and>
     dict_ok (all_shortest_paths (routingTable s)) \<and>
     (\<forall>dest. dict_get (all_shortest_paths (routingTable s)) dest = scan (routingTable s) dest) \<and>
     (\<forall>dest. (\<forall>(n, routes) \<in> set (routingTable s). dict_get routes dest = None) \<longrightarrow>
        dict_get (all_shortest_paths (routingTable s)) dest = None) \<and>
     (\<forall>dest best. dict_get (all_shortest_paths (routingTable s)) dest = Some best \<longrightarrow>
        (\<exists>i < length (routingTable s).
           dict_get (snd (routingTable s ! i)) dest = Some best \<and>
           (\<forall>j < length (routingTable s). \<forall>r.
              dict_get (snd (routingTable s ! j)) dest = Some r \<longrightarrow> fst best \<le> fst r) \<and>
           (\<forall>j < i. \<forall>r.
              dict_get (snd (routingTable s ! j)) dest = Some r \<longrightarrow> fst best < fst r)))"
proof -
  let ?t = "routingTable s"
  let ?s1 = "logging INFO MsgAnnounce s"
  have t1: "routingTable ?s1 = ?t" and sent1: "sent ?s1 = sent s"
    by (simp_all add: logging_def)
  from assms have self: "\<forall>(n, routes) \<in> set (routingTable ?s1). dict_in n routes"
    unfolding t1 by auto
  from assms have ok: "\<forall>(n, routes) \<in> set ?t. dict_ok routes" by auto
  from announce_loop_ok[OF self, of "all_shortest_paths ?t" ?s1]
  obtain s' ads where
    r: "announce_loop (all_shortest_paths ?t) (routingTable ?s1) ?s1 = Inr s'"
    and t: "routingTable s' = routingTable ?s1"
    and se: "sent s' = sent ?s1 @ ads"
    and l: "list_all2 (\<lambda>(n, routes) (pkt, port).
        \<exists>d. dict_get routes n = Some (d, port) \<and>
          pkt = Advertisement (build_update (all_shortest_paths ?t) port))
       (routingTable ?s1) ads"
    by blast
  have 1: "announce s = Inr s'"
    using r by (simp add: announce_def Let_def t1)
  have 2: "routingTable s' = ?t" using t t1 by simp
  have 3: "sent s' = sent s @ ads" using se sent1 by simp
  have 4: "list_all2 (\<lambda>(n, routes) (pkt, port).
        \<exists>d. dict_get routes n = Some (d, port) \<and>
          pkt = Advertisement
            (map (\<lambda>(dest, (distance, p)). (dest, distance))
               (filter (\<lambda>(dest, (distance, p)). p \<noteq> port) (all_shortest_paths ?t))))
       ?t ads"
    using l unfolding t1 build_update_eq .
  have 5: "dict_ok (all_shortest_paths ?t)" by (rule dict_ok_all_shortest_paths)
  have 6: "\<forall>dest. dict_get (all_shortest_paths ?t) dest = scan ?t dest"
    using all_shortest_paths_scan[OF ok] by simp
  have 7: "\<forall>dest. (\<forall>(n, routes) \<in> set ?t. dict_get routes dest = None) \<longrightarrow>
        dict_get (all_shortest_paths ?t) dest = None"
    using 6 by (simp add: scan_None)
  have 8: "\<forall>dest best. dict_get (all_shortest_paths ?t) dest = Some best \<longrightarrow>
        (\<exists>i < length ?t.
           dict_get (snd (?t ! i)) dest = Some best \<and>
           (\<forall>j < length ?t. \<forall>r.
              dict_get (snd (?t ! j)) dest = Some r \<longrightarrow> fst best \<le> fst r) \<and>
           (\<forall>j < i. \<forall>r.
              dict_get (snd (?t ! j)) dest = Some r \<longrightarrow> fst best < fst r))"
  proof (intro allI impI)
    fix dest best
    assume "dict_get (all_shortest_paths ?t) dest = Some best"
    with 6 have "scan ?t dest = Some best" by simp
    from scan_Some[OF this]
    show "\<exists>i < length ?t.
           dict_get (snd (?t ! i)) dest = Some best \<and>
           (\<forall>j < length ?t. \<forall>r.
              dict_get (snd (?t ! j)) dest = Some r \<longrightarrow> fst best \<le> fst r) \<and>
           (\<forall>j < i. \<forall>r.
              dict_get (snd (?t ! j)) dest = Some r \<longrightarrow> fst best < fst r)" .
  qed
  show ?thesis
    apply (rule exI[of _ s'])
    apply (rule exI[of _ ads])
    apply (intro conjI)
           apply (rule 1)
          apply (rule 2)
         apply (rule 3)
        apply (rule 4)
       apply (rule 5)
      apply (rule 6)
     apply (rule 7)
    apply (rule 8)
    done
qed

theorem announcer_split_horizon_witness:
  "(\<exists>s' ads. announce
        (\<lparr>routingTable = [(1, [(1, (1, 1)), (4, (5, 1))]), (2, [(2, (2, 2)), (4, (3, 2))]),
                           (3, [(3, (1, 3)), (4, (3, 3))])],
          sent = [], logged = []\<rparr> :: (nat, nat) router) = Inr s' \<and>
      sent s' = ads \<and> length ads = 3) \<and>
   sent (state_of (announce
        (\<lparr>routingTable = [(1, [(1, (1, 1)), (4, (5, 1))]), (2, [(2, (2, 2)), (4, (3, 2))]),
                           (3, [(3, (1, 3)), (4, (3, 3))])],
          sent = [], logged = []\<rparr> :: (nat, nat) router)))
     = [(Advertisement [(4, 3), (2, 2), (3, 1)], 1),
        (Advertisement [(1, 1), (3, 1)], 2),
        (Advertisement [(1, 1), (4, 3), (2, 2)], 3)]"
proof -
  let ?s = "\<lparr>routingTable = [(1, [(1, (1, 1)), (4, (5, 1))]), (2, [(2, (2, 2)), (4, (3, 2))]),
                           (3, [(3, (1, 3)), (4, (3, 3))])],
          sent = [], logged = []\<rparr> :: (nat, nat) router"
  have h: "\<forall>(n, routes) \<in> set (routingTable ?s). dict_ok routes \<and> dict_in n routes"
    by (simp add: dict_ok_def dict_keys_def dict_in_def dict_get_def)
  from announcer_split_horizon[OF h] obtain s' ads where
    a: "announce ?s = Inr s'" and b: "sent s' = sent ?s @ ads"
    and c: "list_all2 (\<lambda>(n, routes) (pkt, port).
        \<exists>d. dict_get routes n = Some (d, port) \<and>
          pkt = Advertisement
            (map (\<lambda>(dest, (distance, p)). (dest, distance))
               (filter (\<lambda>(dest, (distance, p)). p \<noteq> port)
                  (all_shortest_paths (routingTable ?s)))))
       (routingTable ?s) ads"
    by blast
  from c have "length ads = 3" by (simp add: list_all2_lengthD[symmetric])
  with a b have 1: "\<exists>s' ads. announce ?s = Inr s' \<and> sent s' = ads \<and> length ads = 3"
    by simp
  have 2: "sent (state_of (announce ?s))
     = [(Advertisement [(4, 3), (2, 2), (3, 1)], 1),
        (Advertisement [(1, 1), (3, 1)], 2),
        (Advertisement [(1, 1), (4, 3), (2, 2)], 3)]"
    by (simp add: announce_def all_shortest_paths_def dict_values_def dict_get_def
        build_update_def add_destination_def send_def logging_def state_of_def Let_def)
  from 1 2 show ?thesis by (intro conjI)
qed

text \<open>
  C3. The forwarder on a data packet for \<open>dst\<close>. When no neighbor's route set has
  \<open>dst\<close>, it returns normally, sends nothing, leaves the table alone and logs its debug
  line and the warning. When some route set has \<open>dst\<close>, the packet itself is sent, once,
  out of the port of a route \<open>sp\<close> for \<open>dst\<close> found in the route set at some position
  \<open>i\<close> of the table: no route set has a smaller distance for \<open>dst\<close>, and every route
  set before position \<open>i\<close> that has \<open>dst\<close> has a strictly greater one (the first seen
  wins a tie).
\<close>

theorem forwarder_selects_first_shortest:
  "((\<forall>(n, routes) \<in> set (routingTable s). dict_get routes dst = None) \<longrightarrow>
      (\<exists>s'. handleDataPacket s dst c port = Inr s' \<and>
         routingTable s' = routingTable s \<and> sent s' = sent s \<and>
         logged s' = logged s @ [(DEBUG, MsgProcessData dst), (WARNING, MsgNoRoute dst)])) \<and>
   ((\<exists>(n, routes) \<in> set (routingTable s). dict_get routes dst \<noteq> None) \<longrightarrow>
      (\<exists>i sp s'. i < length (routingTable s) \<and>
         dict_get (snd (routingTable s ! i)) dst = Some sp \<and>
         (\<forall>j < length (routingTable s). \<forall>r.
            dict_get (snd (routingTable s ! j)) dst = Some r \<longrightarrow> fst sp \<le> fst r) \<and>
         (\<forall>j < i. \<forall>r.
            dict_get (snd (routingTable s ! j)) dst = Some r \<longrightarrow> fst sp < fst r) \<and>
         handleDataPacket s dst c port = Inr s' \<and>
         routingTable s' = routingTable s \<and>
         sent s' = sent s @ [(Forwarded (DataPacket dst c), snd sp)]))"
proof (intro conjI impI)
  assume "\<forall>(n, routes) \<in> set (routingTable s). dict_get routes dst = None"
  then have "scan (routingTable s) dst = None" by (simp add: scan_None)
  then show "\<exists>s'. handleDataPacket s dst c port = Inr s' \<and>
         routingTable s' = routingTable s \<and> sent s' = sent s \<and>
         logged s' = logged s @ [(DEBUG, MsgProcessData dst), (WARNING, MsgNoRoute dst)]"
    by (simp add: handleDataPacket_def Let_def logging_def)
next
  assume "\<exists>(n, routes) \<in> set (routingTable s). dict_get routes dst \<noteq> None"
  then obtain n routes where
    mem: "(n, routes) \<in> set (routingTable s)" and some: "dict_get routes dst \<noteq> None"
    by blast
  have "\<not> (\<forall>(n, routes) \<in> set (routingTable s). dict_get routes dst = None)"
  proof
    assume all: "\<forall>(n, routes) \<in> set (routingTable s). dict_get routes dst = None"
    from bspec[OF all mem] some show False by simp
  qed
  then have "scan (routingTable s) dst \<noteq> None" unfolding scan_None .
  then obtain sp where sp: "scan (routingTable s) dst = Some sp" by blast
  from scan_Some[OF sp] obtain i where i: "i < length (routingTable s)"
    "dict_get (snd (routingTable s ! i)) dst = Some sp"
    "\<forall>j < length (routingTable s). \<forall>r.
        dict_get (snd (routingTable s ! j)) dst = Some r \<longrightarrow> fst sp \<le> fst r"
    "\<forall>j < i. \<forall>r. dict_get (snd (routingTable s ! j)) dst = Some r \<longrightarrow> fst sp < fst r"
    by blast
  let ?s' = "send (Forwarded (DataPacket dst c)) (snd sp)
     (logging INFO (MsgForward (snd sp) dst) (logging DEBUG (MsgProcessData dst) s))"
  have h: "handleDataPacket s dst c port = Inr ?s'"
    using sp by (simp add: handleDataPacket_def Let_def logging_def)
  have t: "routingTable ?s' = routingTable s" "sent ?s' = sent s @ [(Forwarded (DataPacket dst c), snd sp)]"
    by (simp_all add: send_def logging_def)
  show "\<exists>i sp s'. i < length (routingTable s) \<and>
         dict_get (snd (routingTable s ! i)) dst = Some sp \<and>
         (\<forall>j < length (routingTable s). \<forall>r.
            dict_get (snd (routingTable s ! j)) dst = Some r \<longrightarrow> fst sp \<le> fst r) \<and>
         (\<forall>j < i. \<forall>r.
            dict_get (snd (routingTable s ! j)) dst = Some r \<longrightarrow> fst sp < fst r) \<and>
         handleDataPacket s dst c port = Inr s' \<and>
         routingTable s' = routingTable s \<and>
         sent s' = sent s @ [(Forwarded (DataPacket dst c), snd sp)]"
    apply (rule exI[of _ i])
    apply (rule exI[of _ sp])
    apply (rule exI[of _ ?s'])
    apply (intro conjI)
          apply (rule i(1))
         apply (rule i(2))
        apply (rule i(3))
       apply (rule i(4))
      apply (rule h)
     apply (rule t(1))
    apply (rule t(2))
    done
qed

theorem forwarder_selects_first_shortest_witness:
  "routingTable (init :: (nat, nat) router) = [] \<and>
   (\<exists>s'. handleDataPacket (init :: (nat, nat) router) 4 0 9 = Inr s' \<and>
      sent s' = []) \<and>
   (\<exists>(n, routes) \<in> set (routingTable
       (\<lparr>routingTable = [(1, [(1, (1, 1)), (4, (5, 1))]), (2, [(2, (2, 2)), (4, (3, 2))]),
                          (3, [(3, (1, 3)), (4, (3, 3))])],
         sent = [], logged = []\<rparr> :: (nat, nat) router)). dict_get routes 4 \<noteq> None) \<and>
   (\<exists>sp s'. handleDataPacket
       (\<lparr>routingTable = [(1, [(1, (1, 1)), (4, (5, 1))]), (2, [(2, (2, 2)), (4, (3, 2))]),
                          (3, [(3, (1, 3)), (4, (3, 3))])],
         sent = [], logged = []\<rparr> :: (nat, nat) router) 4 0 9 = Inr s' \<and>
      sent s' = [(Forwarded (DataPacket 4 0), snd sp)]) \<and>
   sent (state_of (handleDataPacket
       (\<lparr>routingTable = [(1, [(1, (1, 1)), (4, (5, 1))]), (2, [(2, (2, 2)), (4, (3, 2))]),
                          (3, [(3, (1, 3)), (4, (3, 3))])],
         sent = [], logged = []\<rparr> :: (nat, nat) router) 4 0 9))
     = [(Forwarded (DataPacket 4 0), 2)]"
proof -
  let ?s = "\<lparr>routingTable = [(1, [(1, (1, 1)), (4, (5, 1))]), (2, [(2, (2, 2)), (4, (3, 2))]),
                          (3, [(3, (1, 3)), (4, (3, 3))])],
         sent = [], logged = []\<rparr> :: (nat, nat) router"
  have a: "\<forall>(n, routes) \<in> set (routingTable (init :: (nat, nat) router)). dict_get routes 4 = None"
    by (simp add: init_def)
  have b: "\<exists>(n, routes) \<in> set (routingTable ?s). dict_get routes 4 \<noteq> None"
    by (simp add: dict_get_def)
  from forwarder_selects_first_shortest[of "init :: (nat, nat) router" 4 0 9] a
  have 1: "\<exists>s'. handleDataPacket (init :: (nat, nat) router) 4 0 9 = Inr s' \<and>
      sent s' = []"
    by (auto simp: init_def)
  from forwarder_selects_first_shortest[of ?s 4 0 9] b
  have 2: "\<exists>sp s'. handleDataPacket ?s 4 0 9 = Inr s' \<and>
      sent s' = [(Forwarded (DataPacket 4 0), snd sp)]"
    by simp blast
  have 3: "sent (state_of (handleDataPacket ?s 4 0 9))
     = [(Forwarded (DataPacket 4 0), 2)]"
    by (simp add: handleDataPacket_def scan_def dict_get_def Let_def state_of_def send_def
        logging_def)
  have 0: "routingTable (init :: (nat, nat) router) = []" by (simp add: init_def)
  from 0 1 b 2 3 show ?thesis by (intro conjI)
qed

text \<open>
  C4. Take any sequence of received events, starting from the fresh engine, in which
  every link-up distance and every advertised distance is non-negative. Then no call
  raises, and in the state reached every neighbor that is a key of the table has, in
  its own route set, an entry for itself that holds the distance and the port of the
  most recent link-up event for that neighbor. So the announcer returns normally from
  that state, and so does the merge handler on any further such advertisement.
\<close>

theorem self_entry_invariant:
  assumes "list_all non_negative (evs :: (('r, 'a) packet \<times> nat) list)"
  shows "\<exists>s. run init evs = Inr s \<and>
     (\<forall>n routes. dict_get (routingTable s) n = Some routes \<longrightarrow>
        (\<exists>latency port. last_link_up n evs = Some (latency, port) \<and>
           dict_get routes n = Some (latency, port))) \<and>
     (\<exists>s'. announce s = Inr s') \<and>
     (\<forall>src ps port. list_all (\<lambda>(dest, distance). 0 \<le> distance) ps \<longrightarrow>
        (\<exists>s'. handleRoutingUpdate s src ps port = Inr s'))"
proof -
  from run_inv[OF assms] obtain s where
    r: "run init evs = Inr s" and inv: "table_inv evs (routingTable s)" by blast
  have 1: "\<forall>n routes. dict_get (routingTable s) n = Some routes \<longrightarrow>
        (\<exists>latency port. last_link_up n evs = Some (latency, port) \<and>
           dict_get routes n = Some (latency, port))"
  proof (intro allI impI)
    fix n routes
    assume "dict_get (routingTable s) n = Some routes"
    then have "(n, routes) \<in> set (routingTable s)"
      by (simp add: dict_get_def map_of_SomeD)
    with inv obtain r where "last_link_up n evs = Some r" "dict_get routes n = Some r"
      by (fastforce simp: table_inv_def)
    then show "\<exists>latency port. last_link_up n evs = Some (latency, port) \<and>
           dict_get routes n = Some (latency, port)"
      by (cases r) simp
  qed
  have 2: "\<exists>s'. announce s = Inr s'"
    using announce_inv[OF inv] by blast
  have 3: "\<forall>src ps port. list_all (\<lambda>(dest, distance). 0 \<le> distance) ps \<longrightarrow>
        (\<exists>s'. handleRoutingUpdate s src ps port = Inr s')"
  proof (intro allI impI)
    fix src :: 'r and ps :: "('r, int) dict" and port :: nat
    assume "list_all (\<lambda>(dest, distance). 0 \<le> distance) ps"
    from handleRoutingUpdate_inv[OF inv this, of src port]
    show "\<exists>s'. handleRoutingUpdate s src ps port = Inr s'" by blast
  qed
  show ?thesis
    apply (rule exI[of _ s])
    apply (intro conjI)
       apply (rule r)
      apply (rule 1)
     apply (rule 2)
    apply (rule 3)
    done
qed

theorem self_entry_invariant_witness:
  "list_all non_negative
     ([(DiscoveryPacket 1 1 True, 1), (RoutingUpdate 1 [(2, 2), (1, 0)], 1),
       (DiscoveryPacket 2 5 True, 2), (RoutingUpdate 2 [(1, 1), (3, 4)], 2),
       (DiscoveryPacket 1 3 True, 4)] :: ((nat, nat) packet \<times> nat) list) \<and>
   (\<exists>s. run init
     ([(DiscoveryPacket 1 1 True, 1), (RoutingUpdate 1 [(2, 2), (1, 0)], 1),
       (DiscoveryPacket 2 5 True, 2), (RoutingUpdate 2 [(1, 1), (3, 4)], 2),
       (DiscoveryPacket 1 3 True, 4)] :: ((nat, nat) packet \<times> nat) list) = Inr s) \<and>
   routingTable (state_of (run init
     ([(DiscoveryPacket 1 1 True, 1), (RoutingUpdate 1 [(2, 2), (1, 0)], 1),
       (DiscoveryPacket 2 5 True, 2), (RoutingUpdate 2 [(1, 1), (3, 4)], 2),
       (DiscoveryPacket 1 3 True, 4)] :: ((nat, nat) packet \<times> nat) list)))
     = [(1, [(1, (3, 4))]), (2, [(2, (5, 2)), (1, (6, 2)), (3, (9, 2))])]"
proof -
  let ?evs = "[(DiscoveryPacket 1 1 True, 1), (RoutingUpdate 1 [(2, 2), (1, 0)], 1),
       (DiscoveryPacket 2 5 True, 2), (RoutingUpdate 2 [(1, 1), (3, 4)], 2),
       (DiscoveryPacket 1 3 True, 4)] :: ((nat, nat) packet \<times> nat) list"
  have h: "list_all non_negative ?evs" by simp
  from self_entry_invariant[OF h] have 1: "\<exists>s. run init ?evs = Inr s" by blast
  have 2: "routingTable (state_of (run init ?evs))
     = [(1, [(1, (3, 4))]), (2, [(2, (5, 2)), (1, (6, 2)), (3, (9, 2))])]"
    by (simp add: handle_rx_def handleDiscoveryPacket_def handleRoutingUpdate_def Let_def
      logging_def init_def announce_def all_shortest_paths_def dict_values_def dict_get_def
      build_update_def send_def all_dests_def dict_keys_def get_distance_def
      add_destination_def state_of_def)
  from h 1 2 show ?thesis by (intro conjI)
qed

text \<open>
  C5. For an advertisement from a known neighbor (with its self-entry): the handler's
  merge loop ends with a route set \<open>info\<close> and the flag \<open>updated\<close>. The flag is set
  exactly when some destination was added or has a strictly smaller stored distance in
  \<open>info\<close> than before, and the announcer runs exactly when the flag is set. When it is
  set, the handler stores \<open>info\<close> under the neighbor and runs the announcer on that
  table. When it is not, \<open>info\<close> is the old route set and the handler returns with the
  table and the sent packets unchanged.
\<close>

theorem announce_iff_merge_changed:
  assumes "dict_get (routingTable s) src = Some own" and "dict_get own src = Some (link, lp)"
  shows "\<exists>info updated.
     merge_loop (routingTable s) src ps port (all_dests ps) (own, False) = Inr (info, updated) \<and>
     (updated \<longleftrightarrow>
        (\<exists>dest. (dict_get own dest = None \<and> dict_get info dest \<noteq> None) \<or>
           (\<exists>d0 p0 d1 p1. dict_get own dest = Some (d0, p0) \<and>
              dict_get info dest = Some (d1, p1) \<and> d1 < d0))) \<and>
     (announcer_fired s (handleRoutingUpdate s src ps port) \<longleftrightarrow> updated) \<and>
     (updated \<longrightarrow>
        handleRoutingUpdate s src ps port =
          announce (logging INFO (MsgTableUpdated src)
            ((logging DEBUG (MsgProcessUpdate src port) s)
               \<lparr>routingTable := dict_set src info (routingTable s)\<rparr>))) \<and>
     (\<not> updated \<longrightarrow>
        info = own \<and>
        (\<exists>s'. handleRoutingUpdate s src ps port = Inr s' \<and>
           routingTable s' = routingTable s \<and> sent s' = sent s))"
proof -
  from handleRoutingUpdate_known[OF assms, of ps port]
  obtain info u where
    r: "merge_loop (routingTable s) src ps port (all_dests ps) (own, False) = Inr (info, u)"
    and g: "\<And>dest. dict_get info dest =
        (case get_distance ps dest of
           None \<Rightarrow> dict_get own dest
         | Some adv \<Rightarrow>
            (case dict_get own dest of
               None \<Rightarrow> Some (adv + link, port)
             | Some (d0, p0) \<Rightarrow>
                 if d0 > adv + link then Some (adv + link, port) else Some (d0, p0)))"
    and u: "u \<longleftrightarrow> (\<exists>dest adv. get_distance ps dest = Some adv \<and>
         (case dict_get own dest of None \<Rightarrow> True | Some (d0, p0) \<Rightarrow> d0 > adv + link))"
    and same: "\<not> u \<longrightarrow> info = own"
    and h: "handleRoutingUpdate s src ps port =
       (if u then
          announce (logging INFO (MsgTableUpdated src)
            ((logging DEBUG (MsgProcessUpdate src port) s)
               \<lparr>routingTable := dict_set src info (routingTable s)\<rparr>))
        else Inr (logging DEBUG (MsgProcessUpdate src port) s))"
    by blast
  have changed: "u \<longleftrightarrow>
        (\<exists>dest. (dict_get own dest = None \<and> dict_get info dest \<noteq> None) \<or>
           (\<exists>d0 p0 d1 p1. dict_get own dest = Some (d0, p0) \<and>
              dict_get info dest = Some (d1, p1) \<and> d1 < d0))"
  proof
    assume u
    then obtain dest adv where d: "get_distance ps dest = Some adv"
      "case dict_get own dest of None \<Rightarrow> True | Some (d0, p0) \<Rightarrow> d0 > adv + link"
      using u by blast
    show "\<exists>dest. (dict_get own dest = None \<and> dict_get info dest \<noteq> None) \<or>
           (\<exists>d0 p0 d1 p1. dict_get own dest = Some (d0, p0) \<and>
              dict_get info dest = Some (d1, p1) \<and> d1 < d0)"
      by (rule exI[of _ dest]) (use d in \<open>auto simp: g split: option.splits\<close>)
  next
    assume "\<exists>dest. (dict_get own dest = None \<and> dict_get info dest \<noteq> None) \<or>
           (\<exists>d0 p0 d1 p1. dict_get own dest = Some (d0, p0) \<and>
              dict_get info dest = Some (d1, p1) \<and> d1 < d0)"
    then obtain dest where d: "(dict_get own dest = None \<and> dict_get info dest \<noteq> None) \<or>
           (\<exists>d0 p0 d1 p1. dict_get own dest = Some (d0, p0) \<and>
              dict_get info dest = Some (d1, p1) \<and> d1 < d0)" by blast
    then obtain adv where "get_distance ps dest = Some adv"
      "case dict_get own dest of None \<Rightarrow> True | Some (d0, p0) \<Rightarrow> d0 > adv + link"
      by (cases "get_distance ps dest") (auto simp: g split: option.splits if_splits)
    then show u unfolding u by blast
  qed
  have fired: "announcer_fired s (handleRoutingUpdate s src ps port) \<longleftrightarrow> u"
  proof (cases u)
    case True
    let ?x = "logging INFO (MsgTableUpdated src)
            ((logging DEBUG (MsgProcessUpdate src port) s)
               \<lparr>routingTable := dict_set src info (routingTable s)\<rparr>)"
    from announce_logged[of ?x] obtain rest where
      "logged (state_of (announce ?x)) = logged ?x @ (INFO, MsgAnnounce) # rest" by blast
    with True show ?thesis unfolding h by (simp add: announcer_fired_def logging_def)
  next
    case False
    then show ?thesis unfolding h
      by (simp add: announcer_fired_def logging_def state_of_def)
  qed
  have quiet: "\<not> u \<longrightarrow> info = own \<and>
        (\<exists>s'. handleRoutingUpdate s src ps port = Inr s' \<and>
           routingTable s' = routingTable s \<and> sent s' = sent s)"
    using same unfolding h by (simp add: logging_def)
  have loud: "u \<longrightarrow>
        handleRoutingUpdate s src ps port =
          announce (logging INFO (MsgTableUpdated src)
            ((logging DEBUG (MsgProcessUpdate src port) s)
               \<lparr>routingTable := dict_set src info (routingTable s)\<rparr>))"
    unfolding h by simp
  show ?thesis
    apply (rule exI[of _ info])
    apply (rule exI[of _ u])
    apply (intro conjI)
        apply (rule r)
       apply (rule changed)
      apply (rule fired)
     apply (rule loud)
    apply (rule quiet)
    done
qed

theorem announce_iff_merge_changed_witness:
  "dict_get (routingTable
      (\<lparr>routingTable = [(''A'', [(''A'', (1, 1))])], sent = [], logged = []\<rparr>
         :: (string, nat) router)) ''A'' = Some [(''A'', (1, 1))] \<and>
   dict_get [(''A'', (1, 1))] ''A'' = Some (1 :: int, 1 :: nat) \<and>
   announcer_fired
     (\<lparr>routingTable = [(''A'', [(''A'', (1, 1))])], sent = [], logged = []\<rparr>
        :: (string, nat) router)
     (handleRoutingUpdate
        \<lparr>routingTable = [(''A'', [(''A'', (1, 1))])], sent = [], logged = []\<rparr>
        ''A'' [(''B'', 2)] 1) \<and>
   \<not> announcer_fired
     (\<lparr>routingTable = [(''A'', [(''A'', (1, 1))])], sent = [], logged = []\<rparr>
        :: (string, nat) router)
     (handleRoutingUpdate
        \<lparr>routingTable = [(''A'', [(''A'', (1, 1))])], sent = [], logged = []\<rparr>
        ''A'' [(''A'', 0)] 1)"
proof -
  let ?own = "[(''A'', (1, 1))] :: string routes"
  let ?s = "\<lparr>routingTable = [(''A'', ?own)], sent = [], logged = []\<rparr> :: (string, nat) router"
  have a: "dict_get (routingTable ?s) ''A'' = Some ?own" by (simp add: dict_get_def)
  have b: "dict_get ?own ''A'' = Some (1, 1)" by (simp add: dict_get_def)
  have m1: "merge_loop (routingTable ?s) ''A'' [(''B'', 2)] 1 (all_dests [(''B'', 2)]) (?own, False)
      = Inr ([(''A'', (1, 1)), (''B'', (3, 1))], True)"
    by (simp add: all_dests_def dict_keys_def get_distance_def dict_get_def)
  have m2: "merge_loop (routingTable ?s) ''A'' [(''A'', 0)] 1 (all_dests [(''A'', 0)]) (?own, False)
      = Inr (?own, False)"
    by (simp add: all_dests_def dict_keys_def get_distance_def dict_get_def)
  from announce_iff_merge_changed[OF a b, of "[(''B'', 2)]" 1]
  have 1: "announcer_fired ?s (handleRoutingUpdate ?s ''A'' [(''B'', 2)] 1)"
  proof (elim exE conjE)
    fix info updated
    assume r: "merge_loop (routingTable ?s) ''A'' [(''B'', 2)] 1 (all_dests [(''B'', 2)]) (?own, False)
        = Inr (info, updated)"
      and f: "announcer_fired ?s (handleRoutingUpdate ?s ''A'' [(''B'', 2)] 1) \<longleftrightarrow> updated"
    from r have "updated" unfolding m1 by simp
    with f show ?thesis by blast
  qed
  from announce_iff_merge_changed[OF a b, of "[(''A'', 0)]" 1]
  have 2: "\<not> announcer_fired ?s (handleRoutingUpdate ?s ''A'' [(''A'', 0)] 1)"
  proof (elim exE conjE)
    fix info updated
    assume r: "merge_loop (routingTable ?s) ''A'' [(''A'', 0)] 1 (all_dests [(''A'', 0)]) (?own, False)
        = Inr (info, updated)"
      and f: "announcer_fired ?s (handleRoutingUpdate ?s ''A'' [(''A'', 0)] 1) \<longleftrightarrow> updated"
    from r have "\<not> updated" unfolding m2 by simp
    with f show ?thesis by blast
  qed
  from a b 1 2 show ?thesis by (intro conjI)
qed

text \<open>
  C6. A link-up event for neighbor \<open>n\<close> with distance \<open>d\<close> on port \<open>p\<close> stores the
  one-entry route set \<open>{n: (d, p)}\<close> under \<open>n\<close> (replacing whatever was there) and
  then runs the announcer on the new table; afterwards the table holds exactly that
  route set for \<open>n\<close>. On a fresh engine the table becomes \<open>{n: {n: (d, p)}}\<close>.
\<close>

theorem link_up_resets_neighbor:
  "handleDiscoveryPacket s n d True p =
     announce ((logging INFO (MsgLinkUp n p) s)
       \<lparr>routingTable := dict_set n [(n, (d, p))] (routingTable s)\<rparr>) \<and>
   dict_get (routingTable (state_of (handleDiscoveryPacket s n d True p))) n =
     Some [(n, (d, p))] \<and>
   (\<exists>s'. handle_rx init (DiscoveryPacket n d True) p = Inr s' \<and>
      routingTable s' = [(n, [(n, (d, p))])] \<and>
      sent s' = [(Advertisement [], p)])"
proof -
  have 1: "handleDiscoveryPacket s n d True p =
     announce ((logging INFO (MsgLinkUp n p) s)
       \<lparr>routingTable := dict_set n [(n, (d, p))] (routingTable s)\<rparr>)"
    by (simp add: handleDiscoveryPacket_def Let_def logging_def)
  have 2: "dict_get (routingTable (state_of (handleDiscoveryPacket s n d True p))) n =
     Some [(n, (d, p))]"
    unfolding 1 announce_table by (simp add: dict_get_set logging_def)
  have 3: "\<exists>s'. handle_rx init (DiscoveryPacket n d True) p = Inr s' \<and>
      routingTable s' = [(n, [(n, (d, p))])] \<and>
      sent s' = [(Advertisement [], p)]"
    by (simp add: handle_rx_def handleDiscoveryPacket_def Let_def logging_def init_def
        announce_def all_shortest_paths_def dict_values_def dict_get_def build_update_def
        send_def)
  from 1 2 3 show ?thesis by blast
qed

text \<open>
  C7. A link-down event for neighbor \<open>n\<close>: when \<open>n\<close> is a key of the table, its whole
  entry is removed, the other neighbors' entries stay, and the announcer runs on the
  smaller table; when \<open>n\<close> is not a key, the handler returns normally with the table
  and the sent packets unchanged.
\<close>

theorem link_down_removes_neighbor:
  "(dict_in n (routingTable s) \<longrightarrow>
      handleDiscoveryPacket s n d False p =
        announce ((logging INFO (MsgLinkDown n) s)
          \<lparr>routingTable := dict_pop n (routingTable s)\<rparr>) \<and>
      \<not> dict_in n (routingTable (state_of (handleDiscoveryPacket s n d False p))) \<and>
      (\<forall>m. m \<noteq> n \<longrightarrow>
         dict_get (routingTable (state_of (handleDiscoveryPacket s n d False p))) m =
         dict_get (routingTable s) m)) \<and>
   (\<not> dict_in n (routingTable s) \<longrightarrow>
      (\<exists>s'. handleDiscoveryPacket s n d False p = Inr s' \<and>
         routingTable s' = routingTable s \<and> sent s' = sent s \<and>
         logged s' = logged s @ [(INFO, MsgLinkDown n)]))"
proof (cases "dict_in n (routingTable s)")
  case True
  have 1: "handleDiscoveryPacket s n d False p =
        announce ((logging INFO (MsgLinkDown n) s)
          \<lparr>routingTable := dict_pop n (routingTable s)\<rparr>)"
    using True by (simp add: handleDiscoveryPacket_def Let_def logging_def)
  show ?thesis
    using True unfolding 1 announce_table
    by (simp add: dict_in_def dict_get_pop logging_def)
next
  case False
  then show ?thesis
    by (simp add: handleDiscoveryPacket_def Let_def logging_def)
qed

theorem link_down_removes_neighbor_witness:
  "dict_in ''A''
     ([(''A'', [(''A'', (1, 1)), (''C'', (4, 1))]), (''B'', [(''B'', (2, 2))])] :: string table) \<and>
   routingTable (state_of (handleDiscoveryPacket
      \<lparr>routingTable = [(''A'', [(''A'', (1, 1)), (''C'', (4, 1))]), (''B'', [(''B'', (2, 2))])],
       sent = [], logged = []\<rparr> ''A'' 0 False 1 :: (string, nat) result))
     = [(''B'', [(''B'', (2, 2))])] \<and>
   \<not> dict_in ''A'' (routingTable (init :: (string, nat) router)) \<and>
   (\<exists>s'. handleDiscoveryPacket (init :: (string, nat) router) ''A'' 0 False 1 = Inr s' \<and>
      routingTable s' = [] \<and> sent s' = [])"
proof -
  let ?s = "\<lparr>routingTable = [(''A'', [(''A'', (1, 1)), (''C'', (4, 1))]), (''B'', [(''B'', (2, 2))])],
       sent = [], logged = []\<rparr> :: (string, nat) router"
  have a: "dict_in ''A'' (routingTable ?s)" by (simp add: dict_in_def dict_get_def)
  have b: "\<not> dict_in ''A'' (routingTable (init :: (string, nat) router))"
    by (simp add: init_def dict_in_def dict_get_def)
  from link_down_removes_neighbor[of "''A''" ?s 0 1] a
  have "routingTable (state_of (handleDiscoveryPacket ?s ''A'' 0 False 1))
     = [(''B'', [(''B'', (2, 2))])]"
    by (simp add: announce_table dict_pop_def logging_def)
  moreover from link_down_removes_neighbor[of "''A''" "init :: (string, nat) router" 0 1] b
  have "\<exists>s'. handleDiscoveryPacket (init :: (string, nat) router) ''A'' 0 False 1 = Inr s' \<and>
      routingTable s' = [] \<and> sent s' = []"
    by (auto simp: init_def)
  ultimately show ?thesis using a b by simp
qed

text \<open>
  C8. An advertisement whose source is not a key of the routing table changes nothing:
  the handler returns normally, the table and the list of sent packets are what they
  were, and the log gains the handler's debug line and the warning, nothing else. The
  same holds when the advertisement comes through the dispatcher.
\<close>

theorem unknown_neighbor_discarded:
  assumes "\<not> dict_in src (routingTable s)"
  shows "(\<exists>s'. handleRoutingUpdate s src ps port = Inr s' \<and>
            routingTable s' = routingTable s \<and> sent s' = sent s \<and>
            logged s' = logged s @
              [(DEBUG, MsgProcessUpdate src port), (WARNING, MsgUnknownNeighbor src)]) \<and>
         (\<exists>s'. handle_rx s (RoutingUpdate src ps) port = Inr s' \<and>
            routingTable s' = routingTable s \<and> sent s' = sent s)"
  using assms
  by (simp add: handleRoutingUpdate_def handle_rx_def dict_in_def logging_def Let_def)

theorem unknown_neighbor_discarded_witness:
  "\<not> dict_in ''A'' (routingTable (init :: (string, nat) router)) \<and>
   (\<exists>s'. handleRoutingUpdate (init :: (string, nat) router) ''A'' [(''B'', 2)] 1 = Inr s' \<and>
      routingTable s' = [] \<and> sent s' = [])"
proof -
  have h: "\<not> dict_in ''A'' (routingTable (init :: (string, nat) router))"
    by (simp add: init_def dict_in_def dict_get_def)
  from unknown_neighbor_discarded[OF h, of "[(''B'', 2)]" 1] h
  show ?thesis by (auto simp: init_def)
qed

text \<open>
  C9. The scenario of the spec, from the empty table: link-up of A with distance 1 on
  port 1 gives the table \<open>{A: {A: (1, 1)}}\<close> and one empty advertisement out of port
  1; the advertisement \<open>{(B, 2)}\<close> from A on port 1 then stores \<open>(3, 1)\<close> for B in A's
  route set and sends one more advertisement out of port 1, again empty (so without B).
\<close>

theorem end_to_end_scenario:
  "(\<exists>s1 s2.
      handle_rx (init :: (string, nat) router) (DiscoveryPacket ''A'' 1 True) 1 = Inr s1 \<and>
      routingTable s1 = [(''A'', [(''A'', (1, 1))])] \<and>
      sent s1 = [(Advertisement [], 1)] \<and>
      handle_rx s1 (RoutingUpdate ''A'' [(''B'', 2)]) 1 = Inr s2 \<and>
      routingTable s2 = [(''A'', [(''A'', (1, 1)), (''B'', (3, 1))])] \<and>
      Option.bind (dict_get (routingTable s2) ''A'') (\<lambda>routes. dict_get routes ''B'') = Some (3, 1) \<and>
      sent s2 = sent s1 @ [(Advertisement [], 1)])"
  by (simp add: handle_rx_def handleDiscoveryPacket_def handleRoutingUpdate_def Let_def
      logging_def init_def announce_def all_shortest_paths_def dict_values_def dict_get_def
      build_update_def send_def all_dests_def dict_keys_def get_distance_def
      add_destination_def)

text \<open>
  C10. Neither the forwarder nor the announcer writes to the routing table: whatever
  the state and the packet, and whether the call returns or raises, the table after
  the call is the table before it. The forwarder itself never raises, so of the packets
  the dispatcher accepts a data packet never changes the table.
\<close>

theorem forwarder_and_announcer_keep_table:
  "routingTable (state_of (handleDataPacket s dst c port)) = routingTable s \<and>
   (\<exists>s'. handleDataPacket s dst c port = Inr s') \<and>
   routingTable (state_of (announce s)) = routingTable s \<and>
   routingTable (state_of (handle_rx s (DataPacket dst c) port)) = routingTable s"
proof -
  have 1: "routingTable (state_of (handleDataPacket s' dst c port)) = routingTable s'"
    for s' :: "('a, 'b) router"
    by (simp add: handleDataPacket_def Let_def state_of_def logging_def send_def
        split: option.splits)
  have 2: "\<exists>s'. handleDataPacket s dst c port = Inr s'"
    by (simp add: handleDataPacket_def Let_def split: option.splits)
  have 3: "routingTable (state_of (handle_rx s (DataPacket dst c) port)) = routingTable s"
    by (simp add: handle_rx_def Let_def 1) (simp add: logging_def)
  from 1 2 3 announce_table show ?thesis by blast
qed

end
